theory Spec2Isabelle
  imports Main "HOL-Library.Word"
begin

section \<open>Machine types\<close>

type_synonym uint8_t = "8 word"
type_synonym uint16_t = "16 word"

section \<open>AjaneOutputDriverBase: the revision counter\<close>

text \<open>
  The two private counters of \<open>AjaneOutputDriverBase\<close>: \<open>d_revision\<close> is the member
  \<open>_revision\<close> (the revision visible to clients), \<open>next_revision\<close> the pending one.
  Both are \<open>uint16_t\<close>, so \<open>+\<close> wraps modulo \<open>2 ^ 16\<close>.
\<close>

record driver =
  d_revision :: uint16_t
  next_revision :: uint16_t

text \<open>The constructor: \<open>_revision = 1; next_revision = _revision;\<close>\<close>

definition AjaneOutputDriverBase :: driver where
  "AjaneOutputDriverBase = \<lparr>d_revision = 1, next_revision = 1\<rparr>"

text \<open>\<open>uint16_t revision() const\<close>\<close>

definition driver_revision :: "'a driver_scheme \<Rightarrow> uint16_t" where
  "driver_revision d = d_revision d"

text \<open>
  \<open>uint16_t setChanged()\<close>: \<open>next_revision = _revision+1; return (next_revision);\<close>
  The model returns the value and the updated driver.
\<close>

definition setChanged :: "'a driver_scheme \<Rightarrow> uint16_t \<times> 'a driver_scheme" where
  "setChanged d =
     (let d' = d\<lparr>next_revision := d_revision d + 1\<rparr> in (next_revision d', d'))"

text \<open>\<open>void nextRevision()\<close>: \<open>_revision = next_revision;\<close>\<close>

definition nextRevision :: "'a driver_scheme \<Rightarrow> 'a driver_scheme" where
  "nextRevision d = d\<lparr>d_revision := next_revision d\<rparr>"

text \<open>Sequences of calls on the counter, and the states they pass through.\<close>

datatype clock_call = SetChanged | NextRevision

fun do_call :: "clock_call \<Rightarrow> driver \<Rightarrow> driver" where
  "do_call SetChanged d = snd (setChanged d)"
| "do_call NextRevision d = nextRevision d"

fun run_calls :: "clock_call list \<Rightarrow> driver \<Rightarrow> driver" where
  "run_calls [] d = d"
| "run_calls (c # cs) d = run_calls cs (do_call c d)"

text \<open>The states after each call of a sequence, in order.\<close>

fun states_after :: "clock_call list \<Rightarrow> driver \<Rightarrow> driver list" where
  "states_after [] d = []"
| "states_after (c # cs) d = do_call c d # states_after cs (do_call c d)"

definition clock_inv :: "driver \<Rightarrow> bool" where
  "clock_inv d = (next_revision d = d_revision d \<or> next_revision d = d_revision d + 1)"

section \<open>AjaneOutputDriverESP8266: request arguments\<close>

text \<open>
  The one implementation of the driver in the header. Its \<open>_server\<close> is seen through the
  arguments of the current request, a list of name and value pairs in the order sent.
  \<open>_server->arg(name)\<close> is the value of the first argument of that name, and the empty
  string when there is none.
\<close>

record esp8266_driver = driver +
  server_args :: "(string \<times> string) list"

definition arg :: "(string \<times> string) list \<Rightarrow> string \<Rightarrow> string" where
  "arg args name = (case map_of args name of None \<Rightarrow> [] | Some v \<Rightarrow> v)"

text \<open>
  Arduino's \<open>String::toCharArray(buf, bufsize)\<close>: nothing is written when \<open>bufsize\<close> is 0;
  otherwise the first \<open>bufsize - 1\<close> characters of the string are copied and a terminator
  is written after them. \<open>buf\<close> is the C string the buffer held before.
\<close>

definition toCharArray :: "string \<Rightarrow> string \<Rightarrow> nat \<Rightarrow> string" where
  "toCharArray s buf bufsize = (if bufsize = 0 then buf else take (bufsize - 1) s)"

text \<open>
  \<open>getArg(name, buf, buflen)\<close>: \<open>_server->arg(name).toCharArray (buf, buflen); return buf;\<close>
\<close>

definition getArg :: "esp8266_driver \<Rightarrow> string \<Rightarrow> string \<Rightarrow> nat \<Rightarrow> string" where
  "getArg d name buf buflen = toCharArray (arg (server_args d) name) buf buflen"

section \<open>Elements and the page tree\<close>

text \<open>
  The kind-specific state of an \<open>AjaneElement\<close>: \<open>AjaneTextInput<SIZE>\<close> with the C string
  in its buffer \<open>_value\<close> of \<open>SIZE\<close> bytes, \<open>AjaneMutableSpan\<close> with its \<open>_value\<close>,
  \<open>AjaneCheckButton\<close> with \<open>_checked\<close>, and \<open>NoValue\<close> for an element with no state beyond
  \<open>AjaneElement\<close>'s own, which is what an \<open>AjaneHideableContainer\<close> is. Labels and the other
  markup-only members are left out, as are the element classes all of whose methods are
  defined outside the header (slider, colour picker, push button, option select).
\<close>

datatype widget = TextInput nat string | MutableSpan string | CheckButton bool | NoValue

text \<open>
  \<open>AjaneElement\<close>: \<open>_id\<close>, the property bits \<open>_flags\<close> and the revision at which the
  element last changed.
\<close>

record element =
  elem_id :: string
  flags :: uint8_t
  revision :: uint16_t
  widget :: widget

text \<open>\<open>enum Property\<close>\<close>

definition Visibility :: uint8_t where "Visibility = 0"
definition Enabledness :: uint8_t where "Enabledness = 1"

text \<open>
  Objects of a page. \<open>AjaneContainer<NUM>\<close> holds its children in order; an
  \<open>AjaneHideableContainer<NUM>\<close> is an element, of widget \<open>NoValue\<close>, with a child list; an
  \<open>AjanePage<NUM>\<close> is a container. A check button that is a node of the tree stands
  alone: its \<open>radiogroup\<close> is null. The buttons of an \<open>AjaneRadioGroup<NUM>\<close> are kept
  with their group, which is modelled on its own further down.
\<close>

datatype node =
    Static string
  | ConnectionIndicator "string option" "string option"
  | Element element
  | Container "node list"
  | HideableContainer element "node list"

text \<open>
  \<open>AjaneTextInput::value(Value)\<close> returns \<open>_value\<close>; the other classes define \<open>value\<close>
  outside the header.
\<close>

fun TextInput_value :: "element \<Rightarrow> string option" where
  "TextInput_value e = (case widget e of TextInput SIZE v \<Rightarrow> Some v | _ \<Rightarrow> None)"

text \<open>
  Modelled from the spec: \<open>AjaneCheckButton::updateFromDriverArg\<close> is declared in the
  header and defined outside it. \<open>apply_inbound\<close> pulls the one value for the name from
  the transport adapter and updates the widget's state, which for a check button is its
  boolean. Neither the header nor the spec says how the raw value encodes the boolean:
  the decoding is the parameter \<open>checked_of\<close>. This is the override for a button that
  stands alone; what a member of a radio group does in addition is
  \<open>member_updateFromDriverArg\<close> below.
\<close>

definition AjaneCheckButton_updateFromDriverArg ::
  "(string \<Rightarrow> bool) \<Rightarrow> esp8266_driver \<Rightarrow> string \<Rightarrow> element \<Rightarrow> element" where
  "AjaneCheckButton_updateFromDriverArg checked_of d argname e =
     e\<lparr>widget := CheckButton (checked_of (arg (server_args d) argname))\<rparr>"

text \<open>
  \<open>updateFromDriverArg(argname)\<close> by class: \<open>AjaneTextInput\<close> reads the argument into its
  buffer, \<open>_driver->getArg(argname, _value, SIZE)\<close>; \<open>AjaneElement\<close>'s own version, which
  \<open>AjaneMutableSpan\<close> and \<open>AjaneHideableContainer\<close> inherit, returns at once;
  \<open>AjaneCheckButton\<close> has the override above.
\<close>

fun updateFromDriverArg ::
  "(string \<Rightarrow> bool) \<Rightarrow> esp8266_driver \<Rightarrow> string \<Rightarrow> element \<Rightarrow> element" where
  "updateFromDriverArg checked_of d argname e =
     (case widget e of
        TextInput SIZE v \<Rightarrow> e\<lparr>widget := TextInput SIZE (getArg d argname v SIZE)\<rparr>
      | MutableSpan v \<Rightarrow> e
      | CheckButton c \<Rightarrow> AjaneCheckButton_updateFromDriverArg checked_of d argname e
      | NoValue \<Rightarrow> e)"

text \<open>
  Modelled from the spec: \<open>AjaneElement::setChanged\<close> is declared in the header and
  defined outside it. Marking a widget changed calls the clock's \<open>mark_dirty\<close> and records
  the pending revision as the widget's \<open>last_changed\<close>.
\<close>

definition Element_setChanged ::
  "element \<Rightarrow> 'a driver_scheme \<Rightarrow> element \<times> 'a driver_scheme" where
  "Element_setChanged e d = (case setChanged d of (r, d') \<Rightarrow> (e\<lparr>revision := r\<rparr>, d'))"

text \<open>
  Modelled from the spec: \<open>AjaneElement::setBasicProperty\<close> is declared in the header and
  defined outside it. \<open>mark_property_changed\<close> sets the flag bit of the property to the
  status and marks the widget changed.
\<close>

definition Element_setBasicProperty ::
  "uint8_t \<Rightarrow> bool \<Rightarrow> element \<Rightarrow> 'a driver_scheme \<Rightarrow> element \<times> 'a driver_scheme" where
  "Element_setBasicProperty num status e d =
     Element_setChanged
       (e\<lparr>flags := (if status then set_bit (unat num) (flags e)
                      else unset_bit (unat num) (flags e))\<rparr>) d"

text \<open>
  \<open>setBasicProperty(num, status)\<close> by class: \<open>AjaneBase\<close>'s body is empty, and neither
  \<open>AjaneStatic\<close> nor \<open>AjaneConnectionIndicator\<close> overrides it; \<open>AjaneContainer\<close> calls it on
  every child in order; \<open>AjaneHideableContainer\<close> calls \<open>AjaneElement\<close>'s and then its child
  list's.
\<close>

fun setBasicProperty ::
    "uint8_t \<Rightarrow> bool \<Rightarrow> node \<Rightarrow> 'a driver_scheme \<Rightarrow> node \<times> 'a driver_scheme"
  and setBasicProperty_children ::
    "uint8_t \<Rightarrow> bool \<Rightarrow> node list \<Rightarrow> 'a driver_scheme \<Rightarrow> node list \<times> 'a driver_scheme"
where
  "setBasicProperty num status (Static content) d = (Static content, d)"
| "setBasicProperty num status (ConnectionIndicator ok fail) d = (ConnectionIndicator ok fail, d)"
| "setBasicProperty num status (Element e) d =
     (case Element_setBasicProperty num status e d of (e', d') \<Rightarrow> (Element e', d'))"
| "setBasicProperty num status (Container children) d =
     (case setBasicProperty_children num status children d of
        (children', d') \<Rightarrow> (Container children', d'))"
| "setBasicProperty num status (HideableContainer e children) d =
     (case Element_setBasicProperty num status e d of
        (e', d') \<Rightarrow>
          (case setBasicProperty_children num status children d' of
             (children', d'') \<Rightarrow> (HideableContainer e' children', d'')))"
| "setBasicProperty_children num status [] d = ([], d)"
| "setBasicProperty_children num status (c # cs) d =
     (case setBasicProperty num status c d of
        (c', d') \<Rightarrow>
          (case setBasicProperty_children num status cs d' of
             (cs', d'') \<Rightarrow> (c' # cs', d'')))"

text \<open>\<open>setVisible(visible)\<close> and \<open>setEnabled(enabled)\<close> of \<open>AjaneBase\<close>.\<close>

definition setVisible :: "bool \<Rightarrow> node \<Rightarrow> 'a driver_scheme \<Rightarrow> node \<times> 'a driver_scheme" where
  "setVisible visible n d = setBasicProperty Visibility visible n d"

definition setEnabled :: "bool \<Rightarrow> node \<Rightarrow> 'a driver_scheme \<Rightarrow> node \<times> 'a driver_scheme" where
  "setEnabled enabled n d = setBasicProperty Enabledness enabled n d"

text \<open>
  Whether the concrete class of an object overrides \<open>setBasicProperty\<close>: \<open>AjaneElement\<close>
  (and with it every element class), \<open>AjaneContainer\<close> and \<open>AjaneHideableContainer\<close> do.
\<close>

fun overrides_setBasicProperty :: "node \<Rightarrow> bool" where
  "overrides_setBasicProperty (Static content) = False"
| "overrides_setBasicProperty (ConnectionIndicator ok fail) = False"
| "overrides_setBasicProperty (Element e) = True"
| "overrides_setBasicProperty (Container children) = True"
| "overrides_setBasicProperty (HideableContainer e children) = True"

section \<open>Serialising pending changes\<close>

text \<open>
  Modelled from the spec: \<open>AjaneElement::changed(since)\<close> is declared in the header and
  defined outside it. \<open>has_changed_since\<close> compares the widget's \<open>last_changed\<close> against
  \<open>since\<close> by the clock's comparison rule; the spec leaves the rule at wrap-around to be
  chosen, so the rule is the parameter \<open>newer\<close>: \<open>newer r since\<close> says that revision \<open>r\<close>
  is strictly newer than \<open>since\<close>.
\<close>

type_synonym comparison_rule = "uint16_t \<Rightarrow> uint16_t \<Rightarrow> bool"

definition changed :: "comparison_rule \<Rightarrow> uint16_t \<Rightarrow> element \<Rightarrow> bool" where
  "changed newer since e = newer (revision e) since"

text \<open>
  What a walk writes to the driver: the separating \<open>,\<close> and one record per changed
  element, which carries the element's id and properties as they are at that moment.
\<close>

datatype token = Comma | Record element

text \<open>
  Modelled from the spec: \<open>AjaneElement::sendUpdates(since, first)\<close> is declared in the
  header and defined outside it. By the header's comment on \<open>AjaneBase::sendUpdates\<close>, an
  object that writes an update writes a \<open>,\<close> first if \<open>first\<close> is false, and returns true
  if anything has been written; an element writes its record if it has changed since
  \<open>since\<close>. The second component of the result is the returned flag.
\<close>

definition Element_sendUpdates ::
  "comparison_rule \<Rightarrow> uint16_t \<Rightarrow> bool \<Rightarrow> element \<Rightarrow> token list \<times> bool" where
  "Element_sendUpdates newer since first e =
     (if \<not> changed newer since e then ([], False)
      else ((if first then [] else [Comma]) @ [Record e], True))"

text \<open>
  \<open>sendUpdates(since, first)\<close> by class. \<open>AjaneBase\<close>'s version returns false and writes
  nothing. \<open>AjaneContainer\<close> hands its children to \<open>AjaneBase::sendUpdates(children, num,
  since, first)\<close>. \<open>AjaneHideableContainer\<close>:
  \<^verbatim>\<open>bool sent = AjaneElement::sendUpdates(since, first);
  bool sent2 = _childlist.sendUpdates(since, first && !sent);
  return sent || sent2;\<close>
\<close>

text \<open>
  Modelled from the spec: \<open>AjaneBase::sendUpdates(children, num, since, first)\<close>, the loop
  over the children, is declared in the header and defined outside it.
  \<open>sendUpdates_children\<close> is that loop: each child in order is asked to send its updates,
  \<open>first\<close> is threaded through and is false once anything has been written, and the
  result says whether anything has been written.
\<close>

fun sendUpdates :: "comparison_rule \<Rightarrow> uint16_t \<Rightarrow> bool \<Rightarrow> node \<Rightarrow> token list \<times> bool"
  and sendUpdates_children ::
    "comparison_rule \<Rightarrow> uint16_t \<Rightarrow> bool \<Rightarrow> node list \<Rightarrow> token list \<times> bool"
where
  "sendUpdates newer since first (Static content) = ([], False)"
| "sendUpdates newer since first (ConnectionIndicator ok fail) = ([], False)"
| "sendUpdates newer since first (Element e) = Element_sendUpdates newer since first e"
| "sendUpdates newer since first (Container children) =
     sendUpdates_children newer since first children"
| "sendUpdates newer since first (HideableContainer e children) =
     (case Element_sendUpdates newer since first e of
        (out, sent) \<Rightarrow>
          (case sendUpdates_children newer since (first \<and> \<not> sent) children of
             (out2, sent2) \<Rightarrow> (out @ out2, sent \<or> sent2)))"
| "sendUpdates_children newer since first [] = ([], False)"
| "sendUpdates_children newer since first (c # cs) =
     (case sendUpdates newer since first c of
        (out, sent) \<Rightarrow>
          (case sendUpdates_children newer since (first \<and> \<not> sent) cs of
             (out2, sent2) \<Rightarrow> (out @ out2, sent \<or> sent2)))"

text \<open>The elements of a tree in the order a walk meets them.\<close>

fun elements :: "node \<Rightarrow> element list"
  and elements_children :: "node list \<Rightarrow> element list"
where
  "elements (Static content) = []"
| "elements (ConnectionIndicator ok fail) = []"
| "elements (Element e) = [e]"
| "elements (Container children) = elements_children children"
| "elements (HideableContainer e children) = e # elements_children children"
| "elements_children [] = []"
| "elements_children (c # cs) = elements c @ elements_children cs"

definition changed_elements :: "comparison_rule \<Rightarrow> uint16_t \<Rightarrow> node \<Rightarrow> element list" where
  "changed_elements newer since n = filter (changed newer since) (elements n)"

definition changed_elements_children ::
  "comparison_rule \<Rightarrow> uint16_t \<Rightarrow> node list \<Rightarrow> element list" where
  "changed_elements_children newer since cs = filter (changed newer since) (elements_children cs)"

text \<open>
  The flat output for a list of records: \<open>joined first es\<close> writes a \<open>,\<close> before every
  record but the first, and before the first too unless \<open>first\<close> holds.
\<close>

fun joined :: "bool \<Rightarrow> element list \<Rightarrow> token list" where
  "joined first [] = []"
| "joined first (e # es) = (if first then [] else [Comma]) @ Record e # joined False es"

text \<open>The elements whose records a payload holds, in order.\<close>

fun recorded :: "token list \<Rightarrow> element list" where
  "recorded [] = []"
| "recorded (Comma # ts) = recorded ts"
| "recorded (Record e # ts) = e # recorded ts"

fun is_Record :: "token \<Rightarrow> bool" where
  "is_Record Comma = False"
| "is_Record (Record e) = True"

section \<open>Handling a request\<close>

text \<open>
  The steps of handling one request, in the order they are taken: the inbound value for
  the widget of an id is applied, the caller's hook runs, the clock commits, the diff
  against a baseline is computed.
\<close>

datatype event = Inbound string | Hook | Commit | Diff uint16_t

text \<open>The response: the revision it is marked with and the records of the diff.\<close>

record response =
  resp_revision :: uint16_t
  resp_updates :: "token list"

text \<open>
  Modelled from the spec: \<open>AjaneBase::handleRequest(children, num, change_callback)\<close> is
  declared in the header and defined outside it; \<open>AjanePage::handleRequest\<close> only passes
  its children on. What follows is the spec's Update. For every widget reachable in the
  tree, if the request holds a value for the widget's id, the widget's
  \<open>updateFromDriverArg\<close> is invoked for that name; the widget is then marked changed (the
  header's comment on \<open>updateFromDriverArg\<close> says that the implementation need not call
  \<open>setChanged()\<close>, and the spec's round trip needs the widget in the diff).
\<close>

definition Element_inbound ::
  "(string \<Rightarrow> bool) \<Rightarrow> element \<Rightarrow> esp8266_driver
     \<Rightarrow> element \<times> esp8266_driver \<times> event list" where
  "Element_inbound checked_of e d =
     (if map_of (server_args d) (elem_id e) = None then (e, d, [])
      else (case Element_setChanged (updateFromDriverArg checked_of d (elem_id e) e) d of
              (e', d') \<Rightarrow> (e', d', [Inbound (elem_id e)])))"

text \<open>
  Modelled from the spec: the inbound pass of \<open>handleRequest\<close> over a tree, every widget
  reachable in it in walk order.
\<close>

fun inbound ::
    "(string \<Rightarrow> bool) \<Rightarrow> node \<Rightarrow> esp8266_driver \<Rightarrow> node \<times> esp8266_driver \<times> event list"
  and inbound_children ::
    "(string \<Rightarrow> bool) \<Rightarrow> node list \<Rightarrow> esp8266_driver
       \<Rightarrow> node list \<times> esp8266_driver \<times> event list"
where
  "inbound checked_of (Static content) d = (Static content, d, [])"
| "inbound checked_of (ConnectionIndicator ok fail) d = (ConnectionIndicator ok fail, d, [])"
| "inbound checked_of (Element e) d =
     (case Element_inbound checked_of e d of (e', d', log) \<Rightarrow> (Element e', d', log))"
| "inbound checked_of (Container children) d =
     (case inbound_children checked_of children d of
        (children', d', log) \<Rightarrow> (Container children', d', log))"
| "inbound checked_of (HideableContainer e children) d =
     (case Element_inbound checked_of e d of
        (e', d', log) \<Rightarrow>
          (case inbound_children checked_of children d' of
             (children', d'', log') \<Rightarrow> (HideableContainer e' children', d'', log @ log')))"
| "inbound_children checked_of [] d = ([], d, [])"
| "inbound_children checked_of (c # cs) d =
     (case inbound checked_of c d of
        (c', d', log) \<Rightarrow>
          (case inbound_children checked_of cs d' of
             (cs', d'', log') \<Rightarrow> (c' # cs', d'', log @ log')))"

text \<open>
  The state that a request works on: the driver and the children of the page.
\<close>

type_synonym page_state = "esp8266_driver \<times> node list"

text \<open>
  Modelled from the spec: \<open>AjaneBase::handleRequest\<close> as a whole, declared in the header
  and defined outside it. After the inbound pass the reaction hook, if the caller gave
  one (\<open>change_callback\<close> may be 0), is invoked once on the driver and the tree; then
  \<open>nextRevision()\<close> commits; then the diff is computed as for a poll, against the revision
  \<open>since\<close> that the client supplied, and is returned with the clock's visible revision.
  The result is the new state, the response and the steps taken.
\<close>

definition handleRequest ::
  "(string \<Rightarrow> bool) \<Rightarrow> comparison_rule \<Rightarrow> (page_state \<Rightarrow> page_state) option \<Rightarrow> uint16_t
     \<Rightarrow> page_state \<Rightarrow> page_state \<times> response \<times> event list" where
  "handleRequest checked_of newer change_callback since s =
     (case s of (d, children) \<Rightarrow>
      (case inbound_children checked_of children d of (children1, d1, log1) \<Rightarrow>
       (case (case change_callback of
                None \<Rightarrow> ((d1, children1), [])
              | Some hook \<Rightarrow> (hook (d1, children1), [Hook])) of
          ((d2, children2), log2) \<Rightarrow>
            (let d3 = nextRevision d2;
                 payload = fst (sendUpdates_children newer since True children2)
             in ((d3, children2),
                 \<lparr>resp_revision = driver_revision d3, resp_updates = payload\<rparr>,
                 log1 @ log2 @ [Commit, Diff since])))))"

text \<open>
  What the inbound pass makes of one element, as a function of the driver before the
  pass, and the ids for which the request holds a value.
\<close>

definition inbound_element ::
  "(string \<Rightarrow> bool) \<Rightarrow> esp8266_driver \<Rightarrow> element \<Rightarrow> element" where
  "inbound_element checked_of d e =
     (if map_of (server_args d) (elem_id e) = None then e
      else (updateFromDriverArg checked_of d (elem_id e) e)\<lparr>revision := d_revision d + 1\<rparr>)"

definition present_ids :: "esp8266_driver \<Rightarrow> element list \<Rightarrow> string list" where
  "present_ids d es = filter (\<lambda>i. map_of (server_args d) i \<noteq> None) (map elem_id es)"

definition same_request :: "esp8266_driver \<Rightarrow> esp8266_driver \<Rightarrow> bool" where
  "same_request d d' = (server_args d' = server_args d \<and> d_revision d' = d_revision d)"

section \<open>Loops over a uint8_t counter\<close>

text \<open>
  The loop \<^verbatim>\<open>for (uint8_t i = i0; i < NUM; ++i) body\<close>, where \<open>NUM\<close> is a \<open>size_t\<close>
  template parameter. The counter wraps from 255 to 0, so the loop need not end: not
  returning is the value \<open>None\<close>, as is a body that fails.
\<close>

partial_function (option) for_uint8 ::
  "nat \<Rightarrow> (uint8_t \<Rightarrow> 's \<Rightarrow> 's option) \<Rightarrow> uint8_t \<Rightarrow> 's \<Rightarrow> 's option" where
  "for_uint8 NUM body i s =
     (if unat i < NUM
      then (case body i s of None \<Rightarrow> None | Some s' \<Rightarrow> for_uint8 NUM body (i + 1) s')
      else Some s)"

declare for_uint8.simps [code]

text \<open>The body run once for each counter value of a list, in order.\<close>

fun iterate :: "(uint8_t \<Rightarrow> 's \<Rightarrow> 's option) \<Rightarrow> nat list \<Rightarrow> 's \<Rightarrow> 's option" where
  "iterate body [] s = Some s"
| "iterate body (k # ks) s =
     (case body (of_nat k) s of None \<Rightarrow> None | Some s' \<Rightarrow> iterate body ks s')"

section \<open>AjaneRadioGroup\<close>

text \<open>
  \<open>AjaneRadioGroup<NUM>\<close>: the check buttons \<open>buttons[NUM]\<close>, the id buffers
  \<open>childids[NUM][ARDUJAX_MAX_ID_LEN]\<close> (for each the bytes written so far), the
  \<open>int8_t _current_option\<close> as its eight bits, and \<open>_name\<close>. \<open>buttonpointers[i]\<close> is
  \<open>&buttons[i]\<close> throughout and is not stored.
\<close>

record radiogroup =
  buttons :: "element list"
  childids :: "char list list"
  current_option :: uint8_t
  group_name :: string

text \<open>\<open>bool isChecked() const\<close> of \<open>AjaneCheckButton\<close>: \<open>return _checked;\<close>\<close>

definition isChecked :: "element \<Rightarrow> bool" where
  "isChecked e = (widget e = CheckButton True)"

text \<open>
  Modelled from the spec: \<open>AjaneCheckButton::setChecked\<close> is declared in the header and
  defined outside it. Selecting sets the member's boolean and marks the member changed
  if its state changed; a member whose state did not change is not marked.
\<close>

definition setChecked ::
  "bool \<Rightarrow> element \<Rightarrow> 'a driver_scheme \<Rightarrow> element \<times> 'a driver_scheme" where
  "setChecked checked e d =
     (if widget e = CheckButton checked then (e, d)
      else Element_setChanged (e\<lparr>widget := CheckButton checked\<rparr>) d)"

text \<open>
  \<open>void selectOption(uint8_t num)\<close>:
  \<^verbatim>\<open>for (uint8_t i = 0; i < NUM; ++i) { buttons[i].setChecked(i == num); }
  _current_option = num;\<close>
  The state is the driver, which \<open>setChecked\<close> may mark changed, and the group.
\<close>

definition selectOption_step ::
  "uint8_t \<Rightarrow> uint8_t \<Rightarrow> 'a driver_scheme \<times> radiogroup \<Rightarrow> 'a driver_scheme \<times> radiogroup" where
  "selectOption_step num i s =
     (case s of (d, g) \<Rightarrow>
        (case setChecked (i = num) (buttons g ! unat i) d of
           (b, d') \<Rightarrow> (d', g\<lparr>buttons := (buttons g)[unat i := b]\<rparr>)))"

definition selectOption ::
  "uint8_t \<Rightarrow> 'a driver_scheme \<times> radiogroup \<Rightarrow> ('a driver_scheme \<times> radiogroup) option" where
  "selectOption num s =
     (case for_uint8 (length (buttons (snd s))) (\<lambda>i s'. Some (selectOption_step num i s')) 0 s of
        None \<Rightarrow> None
      | Some (d, g) \<Rightarrow> Some (d, g\<lparr>current_option := num\<rparr>))"

text \<open>\<open>uint8_t selectedOption() const\<close>: \<open>return _current_option;\<close>\<close>

definition selectedOption :: "radiogroup \<Rightarrow> uint8_t" where
  "selectedOption g = current_option g"

text \<open>
  \<open>void selectOption(AjaneCheckButton* which)\<close>, the private override that a member
  calls on its group:
  \<^verbatim>\<open>_current_option = -1;
  for (uint8_t i = 0; i < NUM; ++i) {
      if (which == buttonpointers[i]) { _current_option = i; }
      else { buttons[i].setChecked(false); }
  }\<close>
  The pointer \<open>which\<close> is the position in \<open>buttons\<close> that it addresses; a pointer to a
  button outside the array is a position that is not below \<open>NUM\<close>.
\<close>

definition selectOption_which_step ::
  "nat \<Rightarrow> uint8_t \<Rightarrow> 'a driver_scheme \<times> radiogroup \<Rightarrow> 'a driver_scheme \<times> radiogroup" where
  "selectOption_which_step which i s =
     (case s of (d, g) \<Rightarrow>
        if which = unat i then (d, g\<lparr>current_option := i\<rparr>)
        else (case setChecked False (buttons g ! unat i) d of
                (b, d') \<Rightarrow> (d', g\<lparr>buttons := (buttons g)[unat i := b]\<rparr>)))"

definition selectOption_which ::
  "nat \<Rightarrow> 'a driver_scheme \<times> radiogroup \<Rightarrow> ('a driver_scheme \<times> radiogroup) option" where
  "selectOption_which which s =
     (case s of (d, g) \<Rightarrow>
        for_uint8 (length (buttons g)) (\<lambda>i s'. Some (selectOption_which_step which i s')) 0
          (d, g\<lparr>current_option := - 1\<rparr>))"

text \<open>
  Modelled from the spec: \<open>AjaneCheckButton::updateFromDriverArg\<close>, declared in the header
  and defined outside it, for the member at position \<open>j\<close> of a radio group. The member
  takes the inbound boolean as a button that stands alone does; a member that the update
  has checked reports to its group, which runs the exclusivity-enforcing path
  \<open>selectOption(AjaneCheckButton*)\<close> for it.
\<close>

definition member_updateFromDriverArg ::
  "(string \<Rightarrow> bool) \<Rightarrow> string \<Rightarrow> nat \<Rightarrow> esp8266_driver \<times> radiogroup
     \<Rightarrow> (esp8266_driver \<times> radiogroup) option" where
  "member_updateFromDriverArg checked_of argname j s =
     (case s of (d, g) \<Rightarrow>
        (let b = AjaneCheckButton_updateFromDriverArg checked_of d argname (buttons g ! j);
             g' = g\<lparr>buttons := (buttons g)[j := b]\<rparr>
         in if isChecked b then selectOption_which j (d, g') else Some (d, g')))"

section \<open>The constructor of AjaneRadioGroup\<close>

text \<open>\<^verbatim>\<open>#define ARDUJAX_MAX_ID_LEN 16\<close>\<close>

definition ARDUJAX_MAX_ID_LEN :: nat where "ARDUJAX_MAX_ID_LEN = 16"

text \<open>
  C strings. A \<open>const char*\<close> argument is the characters before its terminator:
  \<open>cstring\<close> reads them from a list of bytes.
\<close>

definition NUL :: char where "NUL = CHR 0x00"

definition cstring :: "char list \<Rightarrow> string" where
  "cstring bytes = takeWhile (\<lambda>c. c \<noteq> NUL) bytes"

text \<open>
  \<open>strncpy(dest, src, n)\<close> writes exactly \<open>n\<close> bytes to \<open>dest\<close>: the characters of \<open>src\<close>,
  cut at \<open>n\<close>, and terminators up to \<open>n\<close> if \<open>src\<close> is shorter. The result is the bytes
  written; no terminator is among them when \<open>src\<close> has \<open>n\<close> characters or more.
\<close>

definition strncpy :: "string \<Rightarrow> nat \<Rightarrow> char list" where
  "strncpy src n = take n (cstring src @ replicate n NUL)"

text \<open>
  \<open>strlen\<close> of a buffer of which only the listed bytes have been written: the position
  of the first terminator, and \<open>None\<close> if there is none among them (the call reads on
  into bytes that were never written).
\<close>

definition strlen :: "char list \<Rightarrow> nat option" where
  "strlen bytes = (if NUL \<in> set bytes then Some (length (cstring bytes)) else None)"

text \<open>
  \<open>itoa(value, str, 10)\<close> for a value that is not negative: the decimal digits, most
  significant first. The terminator that \<open>itoa\<close> writes after them is added where it is
  called.
\<close>

fun itoa :: "nat \<Rightarrow> string" where
  "itoa n = (if n < 10 then [char_of (48 + n)] else itoa (n div 10) @ [char_of (48 + n mod 10)])"

declare itoa.simps [simp del]

text \<open>Reading a decimal string back.\<close>

definition decimal :: "string \<Rightarrow> nat" where
  "decimal ds = foldl (\<lambda>a c. 10 * a + (of_char c - 48)) 0 ds"

text \<open>
  \<open>AjaneCheckButton(id, label, checked)\<close>. The constructors of \<open>AjaneCheckButton\<close> and of
  \<open>AjaneElement\<close> are declared in the header and defined outside it: the flags and the
  revision that a new element starts with are the parameters \<open>flags0\<close> and \<open>revision0\<close>.
\<close>

definition AjaneCheckButton :: "uint8_t \<Rightarrow> uint16_t \<Rightarrow> string \<Rightarrow> bool \<Rightarrow> element" where
  "AjaneCheckButton flags0 revision0 ident checked =
     \<lparr>elem_id = ident, flags = flags0, revision = revision0, widget = CheckButton checked\<rparr>"

text \<open>
  The body of the constructor's loop for the counter \<open>i\<close>:
  \<^verbatim>\<open>char* childid = childids[i];
  strncpy(childid, id_base, ARDUJAX_MAX_ID_LEN-4);
  itoa(i, &(childid[strlen(childid)]), 10);
  buttons[i] = AjaneCheckButton(childid, options[i], i == selected_option);\<close>
  The body fails when \<open>strlen\<close> finds no terminator or when the digits and their
  terminator do not fit into the \<open>ARDUJAX_MAX_ID_LEN\<close> bytes of \<open>childid\<close>. The button's id is
  the pointer \<open>childid\<close>, that is the C string in that buffer.
\<close>

definition AjaneRadioGroup_step ::
  "uint8_t \<Rightarrow> uint16_t \<Rightarrow> string \<Rightarrow> uint8_t \<Rightarrow> uint8_t \<Rightarrow> radiogroup \<Rightarrow> radiogroup option" where
  "AjaneRadioGroup_step flags0 revision0 id_base selected_option i g =
     (let childid = strncpy id_base (ARDUJAX_MAX_ID_LEN - 4) in
      case strlen childid of
        None \<Rightarrow> None
      | Some n \<Rightarrow>
          if n + length (itoa (unat i)) + 1 \<le> ARDUJAX_MAX_ID_LEN
          then
            let childid' = take n childid @ itoa (unat i) @ [NUL] in
            Some (g\<lparr>childids := (childids g)[unat i := childid'],
                    buttons := (buttons g)[unat i :=
                      AjaneCheckButton flags0 revision0 (cstring childid')
                        (i = selected_option)]\<rparr>)
          else None)"

text \<open>
  The constructor \<open>AjaneRadioGroup(id_base, options, selected_option)\<close> for the template
  parameter \<open>NUM\<close>: the loop \<^verbatim>\<open>for (uint8_t i = 0; i < NUM; ++i)\<close> over the body above, then
  \<open>_current_option = selected_option\<close> and \<open>_name = id_base\<close>. Before the loop the buttons
  are default-constructed and no buffer has been written; the members that the
  constructor assigns later hold placeholders until then.
\<close>

definition AjaneRadioGroup ::
  "uint8_t \<Rightarrow> uint16_t \<Rightarrow> nat \<Rightarrow> string \<Rightarrow> uint8_t \<Rightarrow> radiogroup option" where
  "AjaneRadioGroup flags0 revision0 NUM id_base selected_option =
     (case for_uint8 NUM (AjaneRadioGroup_step flags0 revision0 id_base selected_option) 0
             \<lparr>buttons = replicate NUM (AjaneCheckButton flags0 revision0 [] False),
              childids = replicate NUM [], current_option = 0, group_name = []\<rparr> of
        None \<Rightarrow> None
      | Some g \<Rightarrow> Some (g\<lparr>current_option := selected_option, group_name := id_base\<rparr>))"

text \<open>
  A group of three options with the first one selected, as the constructor leaves it for
  the id base \<open>r\<close>, for running the operations on.
\<close>

definition example_group :: radiogroup where
  "example_group =
     \<lparr>buttons =
        [\<lparr>elem_id = ''r0'', flags = 3, revision = 0, widget = CheckButton True\<rparr>,
         \<lparr>elem_id = ''r1'', flags = 3, revision = 0, widget = CheckButton False\<rparr>,
         \<lparr>elem_id = ''r2'', flags = 3, revision = 0, widget = CheckButton False\<rparr>],
      childids = [''r0'' @ [CHR 0x00], ''r1'' @ [CHR 0x00], ''r2'' @ [CHR 0x00]],
      current_option = 0, group_name = ''r''\<rparr>"

section \<open>The revision counter: invariant, coalescing, commit\<close>

lemma clock_inv_init: "clock_inv AjaneOutputDriverBase"
  by (simp add: clock_inv_def AjaneOutputDriverBase_def)

lemma clock_inv_do_call: "clock_inv (do_call c d)"
  by (cases c) (simp_all add: clock_inv_def setChanged_def nextRevision_def)

lemma states_after_inv: "list_all clock_inv (states_after cs d)"
  by (induction cs arbitrary: d) (simp_all add: clock_inv_do_call)

lemma run_calls_append: "run_calls (cs @ cs') d = run_calls cs' (run_calls cs d)"
  by (induction cs arbitrary: d) simp_all

lemma run_calls_inv: "clock_inv d \<Longrightarrow> clock_inv (run_calls cs d)"
  by (induction cs arbitrary: d) (simp_all add: clock_inv_do_call)

lemma setChanged_twice: "setChanged (snd (setChanged d)) = setChanged d"
  by (simp add: setChanged_def)

lemma setChanged_absorb:
  "run_calls (replicate n SetChanged) (snd (setChanged d)) = snd (setChanged d)"
  by (induction n) (simp_all add: setChanged_twice)

lemma setChanged_coalesce:
  "run_calls (replicate (Suc n) SetChanged) d = snd (setChanged d)"
  by (simp add: setChanged_absorb)

text \<open>
  C1. Starting from the constructor's state, the state after every call of any sequence
  of \<open>setChanged\<close> and \<open>nextRevision\<close> calls has its pending revision equal to the
  visible revision or to its successor modulo \<open>2 ^ 16\<close>. \<open>setChanged\<close> stores the
  successor of the visible revision as the pending revision, returns it and leaves the
  visible revision alone; it is idempotent, and any positive number of \<open>setChanged\<close> calls
  in a row leaves the state of a single one, with that one pending revision, which the
  next \<open>nextRevision\<close> makes visible. \<open>nextRevision\<close> makes the visible revision equal to
  the pending one and leaves the pending one alone.
\<close>

theorem C1_change_clock_invariant:
  "list_all clock_inv (states_after cs AjaneOutputDriverBase)
   \<and> clock_inv (run_calls cs AjaneOutputDriverBase)
   \<and> setChanged (snd (setChanged d)) = setChanged d
   \<and> run_calls (replicate (Suc n) SetChanged) d = snd (setChanged d)
   \<and> fst (setChanged (run_calls (replicate n SetChanged) d)) = d_revision d + 1
   \<and> d_revision (nextRevision d) = next_revision d
   \<and> next_revision (nextRevision d) = next_revision d
   \<and> d_revision AjaneOutputDriverBase = 1 \<and> next_revision AjaneOutputDriverBase = 1
   \<and> setChanged d = (d_revision d + 1, d\<lparr>next_revision := d_revision d + 1\<rparr>)
   \<and> next_revision (snd (setChanged d)) = d_revision d + 1
   \<and> d_revision (snd (setChanged d)) = d_revision d
   \<and> nextRevision d = d\<lparr>d_revision := next_revision d\<rparr>
   \<and> next_revision (run_calls (replicate (Suc n) SetChanged) d) = d_revision d + 1
   \<and> d_revision (run_calls (replicate (Suc n) SetChanged) d) = d_revision d
   \<and> d_revision (nextRevision (run_calls (replicate (Suc n) SetChanged) d)) = d_revision d + 1
   \<and> next_revision (nextRevision (run_calls (replicate (Suc n) SetChanged) d))
       = d_revision d + 1"
proof -
  have ret: "fst (setChanged (run_calls (replicate n SetChanged) d)) = d_revision d + 1"
  proof (cases n)
    case 0
    then show ?thesis by (simp add: setChanged_def)
  next
    case (Suc m)
    then show ?thesis by (simp only: setChanged_coalesce) (simp add: setChanged_def)
  qed
  have inv: "list_all clock_inv (states_after cs AjaneOutputDriverBase)"
    "clock_inv (run_calls cs AjaneOutputDriverBase)"
    by (rule states_after_inv, rule run_calls_inv [OF clock_inv_init])
  have init: "d_revision AjaneOutputDriverBase = 1" "next_revision AjaneOutputDriverBase = 1"
    by (simp_all add: AjaneOutputDriverBase_def)
  have mark: "setChanged d = (d_revision d + 1, d\<lparr>next_revision := d_revision d + 1\<rparr>)"
    "next_revision (snd (setChanged d)) = d_revision d + 1"
    "d_revision (snd (setChanged d)) = d_revision d"
    by (simp_all add: setChanged_def)
  have commit: "nextRevision d = d\<lparr>d_revision := next_revision d\<rparr>"
    "d_revision (nextRevision d) = next_revision d"
    "next_revision (nextRevision d) = next_revision d"
    by (simp_all add: nextRevision_def)
  have batch: "run_calls (replicate (Suc n) SetChanged) d = snd (setChanged d)"
    by (rule setChanged_coalesce)
  have after: "next_revision (run_calls (replicate (Suc n) SetChanged) d) = d_revision d + 1"
    "d_revision (run_calls (replicate (Suc n) SetChanged) d) = d_revision d"
    "d_revision (nextRevision (run_calls (replicate (Suc n) SetChanged) d)) = d_revision d + 1"
    "next_revision (nextRevision (run_calls (replicate (Suc n) SetChanged) d))
       = d_revision d + 1"
    by (simp_all only: batch) (simp_all add: setChanged_def nextRevision_def)
  show ?thesis
    using ret inv init mark commit batch after setChanged_twice [of d] by blast
qed

lemma word16_le_succ: "(x::uint16_t) \<le> x + 1 \<or> x = - 1"
  by (metis inc_less_eq_self_iff_eq linorder_le_cases)

lemma do_call_visible_step:
  "clock_inv d \<Longrightarrow>
     d_revision (do_call c d) = d_revision d \<or> d_revision (do_call c d) = d_revision d + 1"
  by (cases c) (auto simp: clock_inv_def setChanged_def nextRevision_def)

lemma unat_succ_diff: "unat ((x::uint16_t) + 1 - y) \<le> unat (x - y) + 1"
proof -
  have eq: "x + 1 - y = (x - y) + 1" by simp
  have "unat ((x - y) + 1) \<le> unat (x - y) + unat (1::uint16_t)"
    by (simp add: unat_word_ariths)
  then show ?thesis by (simp only: eq) simp
qed

lemma visible_distance:
  "clock_inv d \<Longrightarrow> unat (d_revision (run_calls cs d) - d_revision d) \<le> length cs"
proof (induction cs arbitrary: d rule: rev_induct)
  case Nil
  show ?case by simp
next
  case (snoc c cs)
  let ?e = "run_calls cs d"
  have inv: "clock_inv ?e" using snoc.prems by (rule run_calls_inv)
  have ih: "unat (d_revision ?e - d_revision d) \<le> length cs"
    using snoc.IH [OF snoc.prems] .
  from do_call_visible_step [OF inv, of c]
  have "unat (d_revision (do_call c ?e) - d_revision d) \<le> unat (d_revision ?e - d_revision d) + 1"
  proof
    assume "d_revision (do_call c ?e) = d_revision ?e"
    then show ?thesis by simp
  next
    assume "d_revision (do_call c ?e) = d_revision ?e + 1"
    then show ?thesis using unat_succ_diff [of "d_revision ?e" "d_revision d"] by simp
  qed
  with ih show ?case by (simp add: run_calls_append)
qed

text \<open>
  C7. Along any sequence of \<open>setChanged\<close> and \<open>nextRevision\<close> calls from the constructor's
  state the value of \<open>revision()\<close> never moves backwards modulo \<open>2 ^ 16\<close>: a call leaves it
  as it was or moves it to its successor, so it is not smaller afterwards unless it wraps
  from \<open>0xFFFF\<close>, and over any further calls it advances by at most their number.
  \<open>nextRevision\<close> is idempotent: twice in a row is the same as once, and with nothing
  pending it changes nothing.
\<close>

theorem C7_visible_revision_monotone:
  "(driver_revision (do_call c (run_calls cs AjaneOutputDriverBase))
      = driver_revision (run_calls cs AjaneOutputDriverBase)
    \<or> driver_revision (do_call c (run_calls cs AjaneOutputDriverBase))
      = driver_revision (run_calls cs AjaneOutputDriverBase) + 1)
   \<and> (driver_revision (run_calls cs AjaneOutputDriverBase)
        \<le> driver_revision (do_call c (run_calls cs AjaneOutputDriverBase))
      \<or> driver_revision (run_calls cs AjaneOutputDriverBase) = - 1)
   \<and> unat (driver_revision (run_calls (cs @ cs') AjaneOutputDriverBase)
           - driver_revision (run_calls cs AjaneOutputDriverBase)) \<le> length cs'
   \<and> nextRevision (nextRevision d) = nextRevision d
   \<and> (next_revision d = d_revision d \<longrightarrow> nextRevision d = d)"
proof -
  let ?e = "run_calls cs AjaneOutputDriverBase"
  have inv: "clock_inv ?e" by (rule run_calls_inv [OF clock_inv_init])
  have step: "d_revision (do_call c ?e) = d_revision ?e
      \<or> d_revision (do_call c ?e) = d_revision ?e + 1"
    by (rule do_call_visible_step [OF inv])
  have le: "d_revision ?e \<le> d_revision (do_call c ?e) \<or> d_revision ?e = - 1"
    using step word16_le_succ [of "d_revision ?e"] by auto
  have dist: "unat (d_revision (run_calls (cs @ cs') AjaneOutputDriverBase) - d_revision ?e)
      \<le> length cs'"
    using visible_distance [OF inv, of cs'] by (simp add: run_calls_append)
  have idem: "nextRevision (nextRevision d) = nextRevision d"
    by (simp add: nextRevision_def)
  have noop: "next_revision d = d_revision d \<longrightarrow> nextRevision d = d"
    by (simp add: nextRevision_def)
  show ?thesis
    unfolding driver_revision_def using step le dist idem noop by blast
qed

theorem C7_visible_revision_monotone_witness:
  "driver_revision (run_calls [SetChanged, SetChanged, NextRevision, NextRevision]
      AjaneOutputDriverBase) = 2
   \<and> nextRevision AjaneOutputDriverBase = AjaneOutputDriverBase"
  using C7_visible_revision_monotone [of NextRevision "[SetChanged, SetChanged, NextRevision]"
      "[]" AjaneOutputDriverBase]
  by (simp add: AjaneOutputDriverBase_def driver_revision_def setChanged_def nextRevision_def)

section \<open>The diff walk\<close>

lemma joined_append:
  "joined first (xs @ ys) = joined first xs @ joined (first \<and> xs = []) ys"
  by (induction xs arbitrary: first) simp_all

lemma Element_sendUpdates_joined:
  "Element_sendUpdates newer since first e
     = (joined first (filter (changed newer since) [e]), filter (changed newer since) [e] \<noteq> [])"
  by (simp add: Element_sendUpdates_def)

lemma sendUpdates_joined:
  "sendUpdates newer since first n
     = (joined first (filter (changed newer since) (elements n)),
        filter (changed newer since) (elements n) \<noteq> [])"
  "sendUpdates_children newer since first cs
     = (joined first (filter (changed newer since) (elements_children cs)),
        filter (changed newer since) (elements_children cs) \<noteq> [])"
proof (induction newer since first n and newer since first cs
    rule: sendUpdates_sendUpdates_children.induct)
  case (3 newer since first e)
  show ?case by (simp add: Element_sendUpdates_joined)
next
  case (5 newer since first e children)
  let ?own = "filter (changed newer since) [e]"
  have own: "Element_sendUpdates newer since first e = (joined first ?own, ?own \<noteq> [])"
    by (rule Element_sendUpdates_joined)
  have rest: "sendUpdates_children newer since (first \<and> \<not> ?own \<noteq> []) children
      = (joined (first \<and> \<not> ?own \<noteq> [])
           (filter (changed newer since) (elements_children children)),
         filter (changed newer since) (elements_children children) \<noteq> [])"
    by (rule "5.IH" [OF own [symmetric]])
  have "sendUpdates newer since first (HideableContainer e children)
      = (joined first ?own
           @ joined (first \<and> ?own = [])
               (filter (changed newer since) (elements_children children)),
         ?own \<noteq> [] \<or> filter (changed newer since) (elements_children children) \<noteq> [])"
    using rest by (simp add: own del: filter.simps)
  also have "\<dots> = (joined first (filter (changed newer since)
                        (elements (HideableContainer e children))),
                   filter (changed newer since) (elements (HideableContainer e children)) \<noteq> [])"
    using joined_append [of first ?own "filter (changed newer since) (elements_children children)"]
    by auto
  finally show ?case .
next
  case (7 newer since first c cs)
  let ?own = "filter (changed newer since) (elements c)"
  have own: "sendUpdates newer since first c = (joined first ?own, ?own \<noteq> [])"
    by (rule "7.IH"(1))
  have rest: "sendUpdates_children newer since (first \<and> \<not> ?own \<noteq> []) cs
      = (joined (first \<and> \<not> ?own \<noteq> []) (filter (changed newer since) (elements_children cs)),
         filter (changed newer since) (elements_children cs) \<noteq> [])"
    by (rule "7.IH"(2) [OF own [symmetric]])
  show ?case
    using rest by (simp add: own joined_append)
qed simp_all

lemma recorded_joined: "recorded (joined first es) = es"
  by (induction es arbitrary: first) simp_all

lemma joined_False: "joined False es = concat (map (\<lambda>e. [Comma, Record e]) es)"
  by (induction es) simp_all

lemma joined_last: "es \<noteq> [] \<Longrightarrow> is_Record (last (joined first es))"
proof (induction es arbitrary: first)
  case Nil
  then show ?case by simp
next
  case (Cons e es)
  show ?case
  proof (cases es)
    case Nil
    then show ?thesis by simp
  next
    case (Cons e' es')
    then have "is_Record (last (joined False es))" using Cons.IH by simp
    moreover have "joined False es \<noteq> []" using Cons by simp
    ultimately show ?thesis by simp
  qed
qed

lemma joined_True_hd: "es \<noteq> [] \<Longrightarrow> is_Record (hd (joined True es))"
  by (cases es) simp_all

lemma joined_Nil_iff: "joined first es = [] \<longleftrightarrow> es = []"
  by (cases es) simp_all

lemma Record_in_joined: "Record e \<in> set (joined first es) \<longleftrightarrow> e \<in> set es"
  by (induction es arbitrary: first) auto

text \<open>
  C4. For every baseline revision, every comparison rule and every tree, the records of
  the payload that \<open>sendUpdates\<close> writes are exactly the elements of the tree whose
  revision is newer than the baseline, each once and in walk order: an element has a
  record in the payload if and only if it is in the tree and its revision is newer than
  the baseline, so an element untouched since the baseline never appears.
\<close>

theorem C4_minimal_diff:
  "recorded (fst (sendUpdates newer since first n)) = filter (changed newer since) (elements n)
   \<and> recorded (fst (sendUpdates_children newer since first cs))
       = filter (changed newer since) (elements_children cs)
   \<and> (Record e \<in> set (fst (sendUpdates newer since first n))
        \<longleftrightarrow> e \<in> set (elements n) \<and> newer (revision e) since)
   \<and> (Record e \<in> set (fst (sendUpdates_children newer since first cs))
        \<longleftrightarrow> e \<in> set (elements_children cs) \<and> newer (revision e) since)"
proof -
  have walk: "fst (sendUpdates newer since first n)
      = joined first (filter (changed newer since) (elements n))"
    and walks: "fst (sendUpdates_children newer since first cs)
      = joined first (filter (changed newer since) (elements_children cs))"
    by (simp_all add: sendUpdates_joined)
  have "recorded (fst (sendUpdates newer since first n))
      = filter (changed newer since) (elements n)"
    by (simp only: walk recorded_joined)
  moreover have "recorded (fst (sendUpdates_children newer since first cs))
      = filter (changed newer since) (elements_children cs)"
    by (simp only: walks recorded_joined)
  moreover have "Record e \<in> set (fst (sendUpdates newer since first n))
      \<longleftrightarrow> e \<in> set (elements n) \<and> newer (revision e) since"
    by (simp only: walk Record_in_joined) (auto simp: changed_def)
  moreover have "Record e \<in> set (fst (sendUpdates_children newer since first cs))
      \<longleftrightarrow> e \<in> set (elements_children cs) \<and> newer (revision e) since"
    by (simp only: walks Record_in_joined) (auto simp: changed_def)
  ultimately show ?thesis by blast
qed

theorem C4_minimal_diff_witness:
  "recorded (fst (sendUpdates (\<lambda>r since. since < r) 3 True
      (Container
        [Static ''<p>'',
         Element \<lparr>elem_id = ''a'', flags = 3, revision = 5, widget = MutableSpan ''x''\<rparr>,
         HideableContainer \<lparr>elem_id = ''h'', flags = 3, revision = 3, widget = NoValue\<rparr>
           [Element \<lparr>elem_id = ''b'', flags = 3, revision = 4, widget = CheckButton True\<rparr>]])))
   = [\<lparr>elem_id = ''a'', flags = 3, revision = 5, widget = MutableSpan ''x''\<rparr>,
      \<lparr>elem_id = ''b'', flags = 3, revision = 4, widget = CheckButton True\<rparr>]"
  using C4_minimal_diff [of "\<lambda>r since. since < r" 3 True
      "Container
        [Static ''<p>'',
         Element \<lparr>elem_id = ''a'', flags = 3, revision = 5, widget = MutableSpan ''x''\<rparr>,
         HideableContainer \<lparr>elem_id = ''h'', flags = 3, revision = 3, widget = NoValue\<rparr>
           [Element \<lparr>elem_id = ''b'', flags = 3, revision = 4, widget = CheckButton True\<rparr>]]"
      "[]" "\<lparr>elem_id = ''a'', flags = 3, revision = 5, widget = MutableSpan ''x''\<rparr>"]
  by (simp add: changed_def)

text \<open>
  C8. For every tree, however its containers are nested, every baseline and every
  comparison rule, the output of \<open>sendUpdates\<close> is the flat list of the changed elements'
  records with a \<open>,\<close> before every record except the first record of the whole payload;
  the first record is preceded by a \<open>,\<close> exactly when the walk was entered with \<open>first\<close>
  false. The returned flag says whether any record was written. Entered with \<open>first\<close> true,
  the output is empty or begins and ends with a record: no leading and no trailing \<open>,\<close>.
\<close>

theorem C8_first_flag_whole_payload:
  "fst (sendUpdates newer since first n) = joined first (changed_elements newer since n)
   \<and> snd (sendUpdates newer since first n) = (changed_elements newer since n \<noteq> [])
   \<and> fst (sendUpdates_children newer since first cs)
       = joined first (changed_elements_children newer since cs)
   \<and> snd (sendUpdates_children newer since first cs)
       = (changed_elements_children newer since cs \<noteq> [])
   \<and> (fst (sendUpdates_children newer since True cs) = []
      \<or> is_Record (hd (fst (sendUpdates_children newer since True cs)))
        \<and> is_Record (last (fst (sendUpdates_children newer since True cs))))
   \<and> joined True (e # es) = Record e # concat (map (\<lambda>x. [Comma, Record x]) es)
   \<and> joined False es = concat (map (\<lambda>x. [Comma, Record x]) es)"
proof -
  let ?es = "changed_elements_children newer since cs"
  have ends: "joined True ?es = [] \<or> is_Record (hd (joined True ?es))
      \<and> is_Record (last (joined True ?es))"
    using joined_True_hd [of ?es] joined_last [of ?es True] joined_Nil_iff [of True ?es]
    by blast
  have "fst (sendUpdates_children newer since True cs) = joined True ?es"
    by (simp add: sendUpdates_joined changed_elements_children_def)
  with ends show ?thesis
    by (simp add: sendUpdates_joined changed_elements_def changed_elements_children_def
        joined_False)
qed

theorem C8_first_flag_whole_payload_witness:
  "sendUpdates_children (\<lambda>r since. since < r) 1 True
      [Container
         [Container [Element \<lparr>elem_id = ''a'', flags = 3, revision = 1, widget = MutableSpan []\<rparr>],
          HideableContainer \<lparr>elem_id = ''h'', flags = 3, revision = 2, widget = NoValue\<rparr>
            [Static ''-'',
             Container [Element \<lparr>elem_id = ''b'', flags = 3, revision = 2, widget = MutableSpan []\<rparr>]]],
       Element \<lparr>elem_id = ''c'', flags = 3, revision = 2, widget = MutableSpan []\<rparr>]
   = ([Record \<lparr>elem_id = ''h'', flags = 3, revision = 2, widget = NoValue\<rparr>, Comma,
       Record \<lparr>elem_id = ''b'', flags = 3, revision = 2, widget = MutableSpan []\<rparr>, Comma,
       Record \<lparr>elem_id = ''c'', flags = 3, revision = 2, widget = MutableSpan []\<rparr>], True)"
  using C8_first_flag_whole_payload [of "\<lambda>r since. since < r" 1 True "Static []"
      "[Container
         [Container [Element \<lparr>elem_id = ''a'', flags = 3, revision = 1, widget = MutableSpan []\<rparr>],
          HideableContainer \<lparr>elem_id = ''h'', flags = 3, revision = 2, widget = NoValue\<rparr>
            [Static ''-'',
             Container [Element \<lparr>elem_id = ''b'', flags = 3, revision = 2, widget = MutableSpan []\<rparr>]]],
       Element \<lparr>elem_id = ''c'', flags = 3, revision = 2, widget = MutableSpan []\<rparr>]"
      "\<lparr>elem_id = ''c'', flags = 3, revision = 2, widget = MutableSpan []\<rparr>" "[]"]
  by (simp add: changed_elements_children_def changed_def prod_eq_iff)

section \<open>Objects that do not override setBasicProperty\<close>

text \<open>
  C10. \<open>setVisible\<close> and \<open>setEnabled\<close> on an object whose class does not override
  \<open>setBasicProperty\<close> (\<open>AjaneStatic\<close>, \<open>AjaneConnectionIndicator\<close>) return the object and
  the driver as they were: no flag, no element revision and neither counter of the driver
  changes.
\<close>

theorem C10_setVisible_no_override:
  "\<not> overrides_setBasicProperty n \<Longrightarrow>
     setVisible visible n d = (n, d) \<and> setEnabled enabled n d = (n, d)
     \<and> setBasicProperty num status n d = (n, d)
     \<and> next_revision (snd (setVisible visible n d)) = next_revision d
     \<and> next_revision (snd (setEnabled enabled n d)) = next_revision d"
proof -
  assume base: "\<not> overrides_setBasicProperty n"
  have same: "setBasicProperty p st n d = (n, d)" for p st
  proof (cases n)
    case (Static content)
    then show ?thesis by simp
  next
    case (ConnectionIndicator ok fail)
    then show ?thesis by simp
  next
    case (Element e)
    with base show ?thesis by simp
  next
    case (Container children)
    with base show ?thesis by simp
  next
    case (HideableContainer e children)
    with base show ?thesis by simp
  qed
  then show ?thesis by (simp add: setVisible_def setEnabled_def)
qed

theorem C10_setVisible_no_override_witness:
  "setVisible False (Static ''<hr>'') AjaneOutputDriverBase = (Static ''<hr>'', AjaneOutputDriverBase)
   \<and> setEnabled False (ConnectionIndicator None None) AjaneOutputDriverBase
       = (ConnectionIndicator None None, AjaneOutputDriverBase)"
  using C10_setVisible_no_override [of "Static ''<hr>''" False AjaneOutputDriverBase False
      Visibility False]
    C10_setVisible_no_override [of "ConnectionIndicator None None" False AjaneOutputDriverBase
      False Visibility False]
  by simp

section \<open>Radio groups\<close>

lemma for_uint8_returns:
  "NUM \<le> 255 \<Longrightarrow> unat i \<le> NUM \<Longrightarrow> for_uint8 NUM body i s = iterate body [unat i..<NUM] s"
proof (induction "NUM - unat i" arbitrary: i s)
  case 0
  then show ?case by (subst for_uint8.simps) simp
next
  case (Suc k)
  then have lt: "unat i < NUM" by simp
  then have u: "unat (i + 1) = unat i + 1"
    using Suc.prems(1) by (simp add: unat_word_ariths)
  have "[unat i..<NUM] = unat i # [unat (i + 1)..<NUM]"
    using lt u by (simp add: upt_conv_Cons)
  moreover have "\<And>s'. for_uint8 NUM body (i + 1) s' = iterate body [unat (i + 1)..<NUM] s'"
    using Suc.hyps(1) [of "i + 1"] Suc.hyps(2) Suc.prems u lt by simp
  ultimately show ?case
    using lt by (subst for_uint8.simps) (simp split: option.splits)
qed

lemma for_uint8_from_0:
  "NUM \<le> 255 \<Longrightarrow> for_uint8 NUM body 0 s = iterate body [0..<NUM] s"
  using for_uint8_returns [of NUM 0 body s] by simp

lemma for_uint8_Some_bound:
  "for_uint8 NUM body i s = Some y \<Longrightarrow> NUM \<le> 255"
proof (induction rule: for_uint8.raw_induct[rotated 1, consumes 1])
  case (1 f NUM body i s y)
  show ?case
  proof (cases "unat i < NUM")
    case True
    with 1 show ?thesis by (auto split: option.splits)
  next
    case False
    moreover have "unat i < 256" using unsigned_less [of i] by simp
    ultimately show ?thesis by simp
  qed
qed

lemma for_uint8_diverges: "256 \<le> NUM \<Longrightarrow> for_uint8 NUM body i s = None"
  using for_uint8_Some_bound [of NUM body i s] by (cases "for_uint8 NUM body i s") auto

lemma isChecked_setChecked: "isChecked (fst (setChecked c e d)) = c"
  by (cases c) (auto simp: setChecked_def isChecked_def Element_setChanged_def split: prod.splits)

lemma iterate_selectOption:
  "\<forall>k\<in>set ks. k < 256 \<Longrightarrow>
   \<exists>d' g'. iterate (\<lambda>i s'. Some (selectOption_step num i s')) ks (d, g) = Some (d', g')
     \<and> length (buttons g') = length (buttons g)
     \<and> current_option g' = current_option g
     \<and> (\<forall>j<length (buttons g).
          if j \<in> set ks then isChecked (buttons g' ! j) = (j = unat num)
          else buttons g' ! j = buttons g ! j)"
proof (induction ks arbitrary: d g)
  case Nil
  show ?case by simp
next
  case (Cons k ks)
  have k: "unat (of_nat k :: uint8_t) = k" using Cons.prems by (simp add: unat_of_nat)
  obtain b d1 where sc: "setChecked (of_nat k = num) (buttons g ! k) d = (b, d1)"
    by (cases "setChecked (of_nat k = num) (buttons g ! k) d") 
  have b: "isChecked b = (k = unat num)"
    using isChecked_setChecked [of "of_nat k = num" "buttons g ! k" d] sc k by auto
  let ?g1 = "g\<lparr>buttons := (buttons g)[k := b]\<rparr>"
  have step: "selectOption_step num (of_nat k) (d, g) = (d1, ?g1)"
    by (simp add: selectOption_step_def k sc)
  from Cons.prems have "\<forall>k\<in>set ks. k < 256" by simp
  from Cons.IH [OF this, of d1 ?g1]
  obtain d' g' where it: "iterate (\<lambda>i s'. Some (selectOption_step num i s')) ks (d1, ?g1) = Some (d', g')"
    and len: "length (buttons g') = length (buttons ?g1)"
    and cur: "current_option g' = current_option ?g1"
    and pt: "\<forall>j<length (buttons ?g1).
          if j \<in> set ks then isChecked (buttons g' ! j) = (j = unat num)
          else buttons g' ! j = buttons ?g1 ! j"
    by blast
  have "\<forall>j<length (buttons g).
          if j \<in> set (k # ks) then isChecked (buttons g' ! j) = (j = unat num)
          else buttons g' ! j = buttons g ! j"
  proof (intro allI impI)
    fix j assume j: "j < length (buttons g)"
    with pt have p: "if j \<in> set ks then isChecked (buttons g' ! j) = (j = unat num)
          else buttons g' ! j = buttons ?g1 ! j" by simp
    show "if j \<in> set (k # ks) then isChecked (buttons g' ! j) = (j = unat num)
          else buttons g' ! j = buttons g ! j"
    proof (cases "j \<in> set ks")
      case True
      with p show ?thesis by simp
    next
      case False
      with p have e: "buttons g' ! j = (buttons g)[k := b] ! j" by simp
      show ?thesis
      proof (cases "j = k")
        case True
        with e j b show ?thesis by simp
      next
        case False
        with e \<open>j \<notin> set ks\<close> show ?thesis by simp
      qed
    qed
  qed
  with it len cur step show ?case by (intro exI [of _ d'] exI [of _ g']) simp
qed

lemma iterate_selectOption_which:
  "\<forall>k\<in>set ks. k < 256 \<Longrightarrow>
   \<exists>d' g'. iterate (\<lambda>i s'. Some (selectOption_which_step which i s')) ks (d, g) = Some (d', g')
     \<and> length (buttons g') = length (buttons g)
     \<and> (\<forall>j<length (buttons g).
          if j \<in> set ks \<and> j \<noteq> which then \<not> isChecked (buttons g' ! j)
          else buttons g' ! j = buttons g ! j)"
proof (induction ks arbitrary: d g)
  case Nil
  show ?case by simp
next
  case (Cons k ks)
  have k: "unat (of_nat k :: uint8_t) = k" using Cons.prems by (simp add: unat_of_nat)
  obtain b d1 where sc: "setChecked False (buttons g ! k) d = (b, d1)"
    by (cases "setChecked False (buttons g ! k) d")
  have b: "\<not> isChecked b"
    using isChecked_setChecked [of False "buttons g ! k" d] sc by auto
  define d2 where "d2 = (if which = k then d else d1)"
  define g1 where "g1 = (if which = k then g\<lparr>current_option := of_nat k\<rparr>
                          else g\<lparr>buttons := (buttons g)[k := b]\<rparr>)"
  have step: "selectOption_which_step which (of_nat k) (d, g) = (d2, g1)"
    by (simp add: selectOption_which_step_def k sc d2_def g1_def)
  have bg1: "buttons g1 = (if which = k then buttons g else (buttons g)[k := b])"
    by (simp add: g1_def)
  have len1: "length (buttons g1) = length (buttons g)" by (simp add: bg1)
  from Cons.prems have "\<forall>k\<in>set ks. k < 256" by simp
  from Cons.IH [OF this, of d2 g1]
  obtain d' g' where it: "iterate (\<lambda>i s'. Some (selectOption_which_step which i s')) ks (d2, g1) = Some (d', g')"
    and len: "length (buttons g') = length (buttons g1)"
    and pt: "\<forall>j<length (buttons g1).
          if j \<in> set ks \<and> j \<noteq> which then \<not> isChecked (buttons g' ! j)
          else buttons g' ! j = buttons g1 ! j"
    by blast
  have it': "iterate (\<lambda>i s'. Some (selectOption_which_step which i s')) (k # ks) (d, g) = Some (d', g')"
    using it step by simp
  have all: "\<forall>j<length (buttons g).
          if j \<in> set (k # ks) \<and> j \<noteq> which then \<not> isChecked (buttons g' ! j)
          else buttons g' ! j = buttons g ! j"
  proof (intro allI impI)
    fix j assume j: "j < length (buttons g)"
    with pt len1 have p: "if j \<in> set ks \<and> j \<noteq> which then \<not> isChecked (buttons g' ! j)
          else buttons g' ! j = buttons g1 ! j" by simp
    show "if j \<in> set (k # ks) \<and> j \<noteq> which then \<not> isChecked (buttons g' ! j)
          else buttons g' ! j = buttons g ! j"
    proof (cases "j \<in> set ks \<and> j \<noteq> which")
      case True
      with p show ?thesis by simp
    next
      case False
      with p have e: "buttons g' ! j = buttons g1 ! j" by simp
      show ?thesis
      proof (cases "j = which")
        case True
        then show ?thesis using e bg1 by simp
      next
        case nw: False
        with False have nks: "j \<notin> set ks" by simp
        show ?thesis
        proof (cases "j = k")
          case True
          then have "buttons g1 ! j = b" using nw j bg1 by simp
          with e b nw True show ?thesis by simp
        next
          case False
          then have "buttons g1 ! j = buttons g ! j" using bg1 by simp
          with e nw nks False show ?thesis by simp
        qed
      qed
    qed
  qed
  from it' len len1 all show ?case by (intro exI [of _ d'] exI [of _ g']) simp
qed

lemma iterate_selectOption_which_current:
  "\<forall>k\<in>set ks. k < 256 \<Longrightarrow>
   iterate (\<lambda>i s'. Some (selectOption_which_step which i s')) ks (d, g) = Some (d', g') \<Longrightarrow>
   current_option g' = (if which \<in> set ks then of_nat which else current_option g)"
proof (induction ks arbitrary: d g)
  case Nil
  then show ?case by simp
next
  case (Cons k ks)
  have k: "unat (of_nat k :: uint8_t) = k" using Cons.prems(1) by (simp add: unat_of_nat)
  obtain d2 g1 where step: "selectOption_which_step which (of_nat k) (d, g) = (d2, g1)"
    by (cases "selectOption_which_step which (of_nat k) (d, g)")
  have cur1: "current_option g1 = (if which = k then of_nat which else current_option g)"
    using step by (auto simp: selectOption_which_step_def k split: prod.splits if_splits)
  have it: "iterate (\<lambda>i s'. Some (selectOption_which_step which i s')) ks (d2, g1) = Some (d', g')"
    using Cons.prems(2) step by simp
  from Cons.prems(1) have "\<forall>k\<in>set ks. k < 256" by simp
  from Cons.IH [OF this it]
  have "current_option g' = (if which \<in> set ks then of_nat which else current_option g1)" .
  with cur1 show ?case by auto
qed

lemma count_checked_eq:
  assumes "\<forall>j<length bs. isChecked (bs ! j) = (j = k \<and> c)"
  shows "length (filter isChecked bs) = (if k < length bs \<and> c then 1 else 0)"
proof -
  have "{i. i < length bs \<and> isChecked (bs ! i)} = (if k < length bs \<and> c then {k} else {})"
    using assms by auto
  then show ?thesis by (simp add: length_filter_conv_card)
qed

lemma selectOption_result:
  assumes "length (buttons g) \<le> 255"
  shows "\<exists>d' g'. selectOption k (d, g) = Some (d', g')
           \<and> length (buttons g') = length (buttons g)
           \<and> selectedOption g' = k
           \<and> (\<forall>j<length (buttons g'). isChecked (buttons g' ! j) = (j = unat k))"
proof -
  let ?N = "length (buttons g)"
  have ks: "\<forall>k\<in>set [0..<?N]. k < 256" using assms by auto
  from iterate_selectOption [OF ks, of k d g]
  obtain d' g' where it: "iterate (\<lambda>i s'. Some (selectOption_step k i s')) [0..<?N] (d, g) = Some (d', g')"
    and len: "length (buttons g') = ?N"
    and pt: "\<forall>j<?N. if j \<in> set [0..<?N] then isChecked (buttons g' ! j) = (j = unat k)
          else buttons g' ! j = buttons g ! j"
    by blast
  have pt': "\<forall>j<length (buttons g'). isChecked (buttons g' ! j) = (j = unat k)"
    using pt len by simp
  have "selectOption k (d, g) = Some (d', g'\<lparr>current_option := k\<rparr>)"
    using it assms by (simp add: selectOption_def for_uint8_from_0)
  with len pt' show ?thesis
    by (intro exI [of _ d'] exI [of _ "g'\<lparr>current_option := k\<rparr>"]) (simp add: selectedOption_def)
qed

lemma selectOption_which_result:
  assumes "length (buttons g) \<le> 255"
  shows "\<exists>d' g'. selectOption_which which (d, g) = Some (d', g')
           \<and> length (buttons g') = length (buttons g)
           \<and> selectedOption g' = (if which < length (buttons g) then of_nat which else - 1)
           \<and> (\<forall>j<length (buttons g').
                isChecked (buttons g' ! j) = (j = which \<and> isChecked (buttons g ! which)))"
proof -
  let ?N = "length (buttons g)"
  let ?g0 = "g\<lparr>current_option := - 1\<rparr>"
  have ks: "\<forall>k\<in>set [0..<?N]. k < 256" using assms by auto
  from iterate_selectOption_which [OF ks, of "which" d ?g0]
  obtain d' g' where it: "iterate (\<lambda>i s'. Some (selectOption_which_step which i s')) [0..<?N] (d, ?g0) = Some (d', g')"
    and len: "length (buttons g') = ?N"
    and pt: "\<forall>j<?N. if j \<in> set [0..<?N] \<and> j \<noteq> which then \<not> isChecked (buttons g' ! j)
          else buttons g' ! j = buttons g ! j"
    by auto
  have cur: "current_option g' = (if which < ?N then of_nat which else - 1)"
    using iterate_selectOption_which_current [OF ks it] by simp
  have pt': "\<forall>j<length (buttons g').
      isChecked (buttons g' ! j) = (j = which \<and> isChecked (buttons g ! which))"
  proof (intro allI impI)
    fix j assume "j < length (buttons g')"
    then have j: "j < ?N" using len by simp
    with pt have "if j \<noteq> which then \<not> isChecked (buttons g' ! j)
          else buttons g' ! j = buttons g ! j" by simp
    then show "isChecked (buttons g' ! j) = (j = which \<and> isChecked (buttons g ! which))"
      by (cases "j = which") simp_all
  qed
  have "selectOption_which which (d, g) = Some (d', g')"
    using it assms by (simp add: selectOption_which_def for_uint8_from_0)
  with len cur pt' show ?thesis
    by (intro exI [of _ d'] exI [of _ g']) (simp add: selectedOption_def)
qed

lemma member_updateFromDriverArg_exclusive:
  assumes "length (buttons g) \<le> 255" and "j < length (buttons g)"
    and "checked_of (arg (server_args d) argname)"
  shows "\<exists>d' g'. member_updateFromDriverArg checked_of argname j (d, g) = Some (d', g')
           \<and> length (buttons g') = length (buttons g)
           \<and> selectedOption g' = of_nat j
           \<and> (\<forall>i<length (buttons g'). isChecked (buttons g' ! i) = (i = j))"
proof -
  define b where "b = AjaneCheckButton_updateFromDriverArg checked_of d argname (buttons g ! j)"
  define g1 where "g1 = g\<lparr>buttons := (buttons g)[j := b]\<rparr>"
  have cb: "isChecked b"
    using assms(3) by (simp add: b_def AjaneCheckButton_updateFromDriverArg_def isChecked_def)
  have len1: "length (buttons g1) = length (buttons g)" by (simp add: g1_def)
  have bj: "buttons g1 ! j = b" using assms(2) by (simp add: g1_def)
  have run: "member_updateFromDriverArg checked_of argname j (d, g) = selectOption_which j (d, g1)"
    using cb by (simp add: member_updateFromDriverArg_def Let_def b_def [symmetric] g1_def [symmetric])
  have N1: "length (buttons g1) \<le> 255" using assms(1) len1 by simp
  from selectOption_which_result [OF N1, of j d]
  obtain d' g' where s: "selectOption_which j (d, g1) = Some (d', g')"
    and l: "length (buttons g') = length (buttons g1)"
    and c: "selectedOption g' = (if j < length (buttons g1) then of_nat j else - 1)"
    and p: "\<forall>i<length (buttons g').
        isChecked (buttons g' ! i) = (i = j \<and> isChecked (buttons g1 ! j))"
    by blast
  have p': "\<forall>i<length (buttons g'). isChecked (buttons g' ! i) = (i = j)"
    using p cb bj by simp
  from run s l len1 c p' assms(2) show ?thesis
    by (intro exI [of _ d'] exI [of _ g']) simp
qed

lemma member_updateFromDriverArg_example:
  "map isChecked (buttons (snd (the
      (member_updateFromDriverArg (\<lambda>v. v = ''true'') ''r1'' 1
         (\<lparr>d_revision = 1, next_revision = 1, server_args = [(''r1'', ''true'')]\<rparr>,
          example_group)))))
   = [False, True, False]"
  by (simp add: member_updateFromDriverArg_def AjaneCheckButton_updateFromDriverArg_def arg_def
      example_group_def isChecked_def selectOption_which_def for_uint8_from_0 upt_conv_Cons
      selectOption_which_step_def setChecked_def Element_setChanged_def setChanged_def Let_def)

lemma example_group_constructed: "AjaneRadioGroup 3 0 3 ''r'' 0 = Some example_group"
  by code_simp

text \<open>
  C2. For a radio group of a size \<open>N\<close> for which the constructor returns (\<open>N \<le> 255\<close>) and
  every index \<open>k\<close>, \<open>selectOption(k)\<close> returns and leaves member \<open>j\<close> checked exactly when
  \<open>j = k\<close>: one member is checked when \<open>k < N\<close> and none otherwise. The dispatch path
  \<open>selectOption(AjaneCheckButton*)\<close>, which a member calls on its group, returns too and
  leaves every member other than the calling one unchecked and the calling one as it
  was: at most one member is checked, and exactly one when the calling member is of the
  group and was checked.
\<close>

theorem C2_radio_exclusive:
  "length (buttons g) \<le> 255 \<Longrightarrow>
     (\<exists>d' g'. selectOption k (d, g) = Some (d', g')
        \<and> length (buttons g') = length (buttons g)
        \<and> (\<forall>j<length (buttons g'). isChecked (buttons g' ! j) = (j = unat k))
        \<and> length (filter isChecked (buttons g'))
            = (if unat k < length (buttons g) then 1 else 0))
   \<and> (\<exists>d' g'. selectOption_which which (d, g) = Some (d', g')
        \<and> length (buttons g') = length (buttons g)
        \<and> (\<forall>j<length (buttons g').
              isChecked (buttons g' ! j) = (j = which \<and> isChecked (buttons g ! which)))
        \<and> length (filter isChecked (buttons g'))
            = (if which < length (buttons g) \<and> isChecked (buttons g ! which) then 1 else 0)
        \<and> length (filter isChecked (buttons g')) \<le> 1)"
proof -
  assume N: "length (buttons g) \<le> 255"
  from selectOption_result [OF N, of k d]
  obtain d1 g1 where s1: "selectOption k (d, g) = Some (d1, g1)"
    and l1: "length (buttons g1) = length (buttons g)"
    and p1: "\<forall>j<length (buttons g1). isChecked (buttons g1 ! j) = (j = unat k)"
    by blast
  have "\<forall>j<length (buttons g1). isChecked (buttons g1 ! j) = (j = unat k \<and> True)"
    using p1 by simp
  from count_checked_eq [OF this]
  have c1: "length (filter isChecked (buttons g1)) = (if unat k < length (buttons g) then 1 else 0)"
    using l1 by simp
  from selectOption_which_result [OF N, of "which" d]
  obtain d2 g2 where s2: "selectOption_which which (d, g) = Some (d2, g2)"
    and l2: "length (buttons g2) = length (buttons g)"
    and p2: "\<forall>j<length (buttons g2).
        isChecked (buttons g2 ! j) = (j = which \<and> isChecked (buttons g ! which))"
    by blast
  from count_checked_eq [OF p2]
  have c2: "length (filter isChecked (buttons g2))
      = (if which < length (buttons g) \<and> isChecked (buttons g ! which) then 1 else 0)"
    using l2 by simp
  then have c2': "length (filter isChecked (buttons g2)) \<le> 1" by simp
  have A: "\<exists>d' g'. selectOption k (d, g) = Some (d', g')
        \<and> length (buttons g') = length (buttons g)
        \<and> (\<forall>j<length (buttons g'). isChecked (buttons g' ! j) = (j = unat k))
        \<and> length (filter isChecked (buttons g'))
            = (if unat k < length (buttons g) then 1 else 0)"
    using s1 l1 p1 c1 by blast
  have B: "\<exists>d' g'. selectOption_which which (d, g) = Some (d', g')
        \<and> length (buttons g') = length (buttons g)
        \<and> (\<forall>j<length (buttons g').
              isChecked (buttons g' ! j) = (j = which \<and> isChecked (buttons g ! which)))
        \<and> length (filter isChecked (buttons g'))
            = (if which < length (buttons g) \<and> isChecked (buttons g ! which) then 1 else 0)
        \<and> length (filter isChecked (buttons g')) \<le> 1"
    using s2 l2 p2 c2 c2' by blast
  from A B show ?thesis by (rule conjI)
qed

theorem C2_radio_exclusive_witness:
  "length (buttons example_group) \<le> 255
   \<and> map isChecked (buttons (snd (the (selectOption 1 (AjaneOutputDriverBase, example_group)))))
       = [False, True, False]
   \<and> map isChecked (buttons (snd (the (selectOption 7 (AjaneOutputDriverBase, example_group)))))
       = [False, False, False]
   \<and> map isChecked
         (buttons (snd (the (selectOption_which 2 (AjaneOutputDriverBase, example_group)))))
       = [False, False, False]
   \<and> length (filter isChecked
         (buttons (snd (the (selectOption 1 (AjaneOutputDriverBase, example_group)))))) = 1"
  using C2_radio_exclusive [of example_group 1 AjaneOutputDriverBase 2]
  by (simp add: example_group_def selectOption_def selectOption_which_def for_uint8_from_0
      upt_conv_Cons selectOption_step_def selectOption_which_step_def setChecked_def
      Element_setChanged_def setChanged_def AjaneOutputDriverBase_def isChecked_def)

text \<open>
  C6. On a radio group of 3 options, \<open>selectOption(1)\<close> and then \<open>selectOption(5)\<close> both
  return; afterwards \<open>selectedOption()\<close> is 5, which is not an index of the group, and none
  of the three members is checked.
\<close>

theorem C6_select_out_of_range:
  "length (buttons g) = 3 \<Longrightarrow>
     \<exists>d1 g1 d2 g2. selectOption 1 (d, g) = Some (d1, g1)
        \<and> selectOption 5 (d1, g1) = Some (d2, g2)
        \<and> length (buttons g2) = 3
        \<and> selectedOption g2 = 5
        \<and> \<not> unat (selectedOption g2) < length (buttons g2)
        \<and> \<not> isChecked (buttons g2 ! 0) \<and> \<not> isChecked (buttons g2 ! 1)
        \<and> \<not> isChecked (buttons g2 ! 2)
        \<and> filter isChecked (buttons g2) = []"
proof -
  assume N: "length (buttons g) = 3"
  then have N': "length (buttons g) \<le> 255" by simp
  from selectOption_result [OF N', of 1 d]
  obtain d1 g1 where s1: "selectOption 1 (d, g) = Some (d1, g1)"
    and l1: "length (buttons g1) = length (buttons g)"
    by blast
  have N1: "length (buttons g1) \<le> 255" using l1 N by simp
  from selectOption_result [OF N1, of 5 d1]
  obtain d2 g2 where s2: "selectOption 5 (d1, g1) = Some (d2, g2)"
    and l2: "length (buttons g2) = length (buttons g1)"
    and sel: "selectedOption g2 = 5"
    and p2: "\<forall>j<length (buttons g2). isChecked (buttons g2 ! j) = (j = unat (5::uint8_t))"
    by blast
  have len: "length (buttons g2) = 3" using l1 l2 N by simp
  have none: "\<forall>j<length (buttons g2). \<not> isChecked (buttons g2 ! j)"
    using p2 len by auto
  then have "\<forall>b\<in>set (buttons g2). \<not> isChecked b"
    by (auto simp: in_set_conv_nth)
  then have empty: "filter isChecked (buttons g2) = []" by (simp add: filter_empty_conv)
  have "\<not> isChecked (buttons g2 ! 0) \<and> \<not> isChecked (buttons g2 ! 1)
        \<and> \<not> isChecked (buttons g2 ! 2)"
    using none len by simp
  with s1 s2 len sel empty show ?thesis by simp
qed

theorem C6_select_out_of_range_witness:
  "length (buttons example_group) = 3
   \<and> Option.bind (selectOption 1 (AjaneOutputDriverBase, example_group)) (selectOption 5)
       = Some (\<lparr>d_revision = 1, next_revision = 2\<rparr>,
           \<lparr>buttons =
              [\<lparr>elem_id = ''r0'', flags = 3, revision = 2, widget = CheckButton False\<rparr>,
               \<lparr>elem_id = ''r1'', flags = 3, revision = 2, widget = CheckButton False\<rparr>,
               \<lparr>elem_id = ''r2'', flags = 3, revision = 0, widget = CheckButton False\<rparr>],
            childids = [''r0'' @ [CHR 0x00], ''r1'' @ [CHR 0x00], ''r2'' @ [CHR 0x00]],
            current_option = 5, group_name = ''r''\<rparr>)"
  using C6_select_out_of_range [of example_group AjaneOutputDriverBase]
  by (simp add: example_group_def selectOption_def for_uint8_from_0 upt_conv_Cons
      selectOption_step_def setChecked_def Element_setChanged_def setChanged_def
      AjaneOutputDriverBase_def)

section \<open>Ids of a radio group\<close>

lemma of_char_digit: "d < 10 \<Longrightarrow> of_char (char_of (48 + d :: nat)) = (48 + d :: nat)"
  by simp

lemma digit_not_NUL: "d < 10 \<Longrightarrow> char_of (48 + d :: nat) \<noteq> NUL"
proof
  assume d: "d < 10" and "char_of (48 + d) = NUL"
  then have "of_char (char_of (48 + d) :: char) = (of_char NUL :: nat)" by simp
  with d show False by (simp add: NUL_def)
qed

lemma NUL_notin_itoa: "NUL \<notin> set (itoa n)"
proof (induction n rule: itoa.induct)
  case (1 n)
  show ?case
  proof (cases "n < 10")
    case True
    then show ?thesis using digit_not_NUL [of n] by (subst itoa.simps) auto
  next
    case False
    have "n mod 10 < 10" by simp
    then have "char_of (48 + n mod 10) \<noteq> NUL" by (rule digit_not_NUL)
    with False "1.IH" show ?thesis by (subst itoa.simps) auto
  qed
qed

lemma length_itoa: "n < 1000 \<Longrightarrow> length (itoa n) \<le> 3"
proof -
  assume n: "n < 1000"
  have one: "\<And>m. m < 10 \<Longrightarrow> length (itoa m) = 1" by (subst itoa.simps) simp
  have two: "\<And>m. m < 100 \<Longrightarrow> length (itoa m) \<le> 2"
  proof -
    fix m :: nat assume "m < 100"
    then have "m div 10 < 10" by simp
    from one [OF this] show "length (itoa m) \<le> 2" by (subst itoa.simps) simp
  qed
  from n have "n div 10 < 100" by simp
  from two [OF this] show ?thesis by (subst itoa.simps) simp
qed

lemma decimal_itoa: "decimal (itoa n) = n"
proof (induction n rule: itoa.induct)
  case (1 n)
  show ?case
  proof (cases "n < 10")
    case True
    then show ?thesis by (subst itoa.simps) (simp add: decimal_def)
  next
    case False
    have "n mod 10 < 10" by simp
    then have d: "of_char (char_of (48 + n mod 10)) = (48 + n mod 10 :: nat)"
      by (rule of_char_digit)
    have "decimal (itoa n) = 10 * decimal (itoa (n div 10)) + n mod 10"
      using False d by (subst itoa.simps) (simp add: decimal_def)
    with False "1.IH" show ?thesis by simp
  qed
qed

lemma itoa_inj: "itoa m = itoa n \<Longrightarrow> m = n"
  by (metis decimal_itoa)

lemma cstring_no_NUL: "NUL \<notin> set xs \<Longrightarrow> cstring (xs @ NUL # ys) = xs"
  by (auto simp: cstring_def takeWhile_tail)

lemma NUL_notin_cstring: "NUL \<notin> set (cstring xs)"
  by (auto simp: cstring_def dest: set_takeWhileD)

lemma strncpy_short:
  assumes "length (cstring src) < n"
  shows "strncpy src n = cstring src @ NUL # replicate (n - length (cstring src) - 1) NUL"
proof -
  have "replicate (n - length (cstring src)) NUL
      = NUL # replicate (n - length (cstring src) - 1) NUL"
    using assms by (cases "n - length (cstring src)") simp_all
  then show ?thesis using assms by (simp add: strncpy_def)
qed

lemma strlen_strncpy:
  assumes "length (cstring src) < n"
  shows "strlen (strncpy src n) = Some (length (cstring src))"
    and "take (length (cstring src)) (strncpy src n) = cstring src"
  using assms NUL_notin_cstring [of src]
  by (simp_all add: strncpy_short strlen_def cstring_no_NUL)

lemma AjaneRadioGroup_step_result:
  assumes "length (cstring id_base) \<le> 11" and "k \<le> 255"
  shows "AjaneRadioGroup_step flags0 revision0 id_base selected_option (of_nat k) g
     = Some (g\<lparr>childids := (childids g)[k := cstring id_base @ itoa k @ [NUL]],
              buttons := (buttons g)[k :=
                AjaneCheckButton flags0 revision0 (cstring id_base @ itoa k)
                  (k = unat selected_option)]\<rparr>)"
proof -
  have k: "unat (of_nat k :: uint8_t) = k" using assms(2) by (simp add: unat_of_nat)
  have eq: "(of_nat k = selected_option) = (k = unat selected_option)"
    using k by auto
  have lt: "length (cstring id_base) < ARDUJAX_MAX_ID_LEN - 4"
    using assms(1) by (simp add: ARDUJAX_MAX_ID_LEN_def)
  have fits: "length (cstring id_base) + length (itoa k) + 1 \<le> ARDUJAX_MAX_ID_LEN"
    using assms length_itoa [of k] by (simp add: ARDUJAX_MAX_ID_LEN_def)
  have cs: "cstring (cstring id_base @ itoa k @ [NUL]) = cstring id_base @ itoa k"
    using cstring_no_NUL [of "cstring id_base @ itoa k" "[]"] NUL_notin_cstring [of id_base]
      NUL_notin_itoa [of k] by simp
  have fits': "Suc (length (cstring id_base) + length (itoa k)) \<le> ARDUJAX_MAX_ID_LEN"
    using fits by simp
  show ?thesis
    by (simp add: AjaneRadioGroup_step_def strlen_strncpy [OF lt] k fits' cs eq Let_def)
qed

lemma iterate_snoc:
  "iterate body (ks @ [k]) s
     = (case iterate body ks s of None \<Rightarrow> None | Some s' \<Rightarrow> body (of_nat k) s')"
  by (induction ks arbitrary: s) (simp_all split: option.splits)

lemma fill_next:
  "k < length bs \<Longrightarrow>
     (map f [0..<k] @ drop k bs)[k := v] = map f [0..<k] @ v # drop (Suc k) bs"
proof -
  assume k: "k < length bs"
  then have "drop k bs = bs ! k # drop (Suc k) bs" by (simp add: Cons_nth_drop_Suc)
  then show ?thesis by (simp add: list_update_append)
qed

lemma iterate_AjaneRadioGroup_step:
  assumes "length (cstring id_base) \<le> 11"
    and "length (buttons g) \<le> 255" and "length (childids g) = length (buttons g)"
  shows "k \<le> length (buttons g) \<Longrightarrow>
     iterate (AjaneRadioGroup_step flags0 revision0 id_base selected_option) [0..<k] g
       = Some (g\<lparr>childids := map (\<lambda>i. cstring id_base @ itoa i @ [NUL]) [0..<k]
                               @ drop k (childids g),
                buttons := map (\<lambda>i. AjaneCheckButton flags0 revision0 (cstring id_base @ itoa i)
                                       (i = unat selected_option)) [0..<k]
                              @ drop k (buttons g)\<rparr>)"
proof (induction k)
  case 0
  show ?case by simp
next
  case (Suc k)
  then have k: "k < length (buttons g)" and k': "k < length (childids g)" and k255: "k \<le> 255"
    using assms by simp_all
  have ih: "iterate (AjaneRadioGroup_step flags0 revision0 id_base selected_option) [0..<k] g
       = Some (g\<lparr>childids := map (\<lambda>i. cstring id_base @ itoa i @ [NUL]) [0..<k]
                               @ drop k (childids g),
                buttons := map (\<lambda>i. AjaneCheckButton flags0 revision0 (cstring id_base @ itoa i)
                                       (i = unat selected_option)) [0..<k]
                              @ drop k (buttons g)\<rparr>)"
    using Suc by simp
  have "[0..<Suc k] = [0..<k] @ [k]" by simp
  then show ?case
    by (simp only: iterate_snoc ih option.case AjaneRadioGroup_step_result [OF assms(1) k255])
       (simp add: fill_next [OF k] fill_next [OF k'])
qed

lemma AjaneRadioGroup_Some_bound:
  "AjaneRadioGroup flags0 revision0 NUM id_base selected_option = Some g \<Longrightarrow> NUM \<le> 255"
  by (auto simp: AjaneRadioGroup_def split: option.splits dest: for_uint8_Some_bound)

text \<open>
  C9, for the sizes the constructor supports. For every \<open>NUM \<le> 255\<close> and every \<open>id_base\<close> of at most 11 characters the
  constructor returns a group of \<open>NUM\<close> buttons in which the id of member \<open>i\<close> is
  \<open>id_base\<close> followed by the decimal digits of \<open>i\<close>; the ids are pairwise distinct, and each
  with its terminator takes at most \<open>ARDUJAX_MAX_ID_LEN\<close> bytes of its buffer.
\<close>

theorem C9_radio_ids:
  "NUM \<le> 255 \<Longrightarrow> length (cstring id_base) \<le> 11 \<Longrightarrow>
     \<exists>g. AjaneRadioGroup flags0 revision0 NUM id_base selected_option = Some g
       \<and> length (buttons g) = NUM
       \<and> map elem_id (buttons g) = map (\<lambda>i. cstring id_base @ itoa i) [0..<NUM]
       \<and> childids g = map (\<lambda>i. cstring id_base @ itoa i @ [NUL]) [0..<NUM]
       \<and> distinct (map elem_id (buttons g))
       \<and> list_all (\<lambda>bytes. length bytes \<le> ARDUJAX_MAX_ID_LEN) (childids g)
       \<and> selectedOption g = selected_option"
proof -
  assume N: "NUM \<le> 255" and L: "length (cstring id_base) \<le> 11"
  let ?g0 = "\<lparr>buttons = replicate NUM (AjaneCheckButton flags0 revision0 [] False),
              childids = replicate NUM [], current_option = 0, group_name = []\<rparr>"
  let ?ids = "map (\<lambda>i. cstring id_base @ itoa i @ [NUL]) [0..<NUM]"
  let ?bs = "map (\<lambda>i. AjaneCheckButton flags0 revision0 (cstring id_base @ itoa i)
                         (i = unat selected_option)) [0..<NUM]"
  have "iterate (AjaneRadioGroup_step flags0 revision0 id_base selected_option) [0..<NUM] ?g0
      = Some (?g0\<lparr>childids := ?ids @ drop NUM (childids ?g0),
                    buttons := ?bs @ drop NUM (buttons ?g0)\<rparr>)"
    using N by (intro iterate_AjaneRadioGroup_step [OF L]) simp_all
  then have ctor: "AjaneRadioGroup flags0 revision0 NUM id_base selected_option
      = Some \<lparr>buttons = ?bs, childids = ?ids, current_option = selected_option,
              group_name = id_base\<rparr>"
    using N by (simp add: AjaneRadioGroup_def for_uint8_from_0)
  have ids: "map elem_id ?bs = map (\<lambda>i. cstring id_base @ itoa i) [0..<NUM]"
    by (simp add: AjaneCheckButton_def comp_def)
  have "inj_on (\<lambda>i. cstring id_base @ itoa i) (set [0..<NUM])"
    by (auto simp: inj_on_def dest: itoa_inj)
  then have dist: "distinct (map (\<lambda>i. cstring id_base @ itoa i) [0..<NUM])"
    by (simp add: distinct_map)
  have fit: "list_all (\<lambda>bytes. length bytes \<le> ARDUJAX_MAX_ID_LEN) ?ids"
  proof -
    have "\<And>i. i < NUM \<Longrightarrow> length (cstring id_base @ itoa i @ [NUL]) \<le> ARDUJAX_MAX_ID_LEN"
    proof -
      fix i assume "i < NUM"
      then have "i < 1000" using N by simp
      from length_itoa [OF this] L
      show "length (cstring id_base @ itoa i @ [NUL]) \<le> ARDUJAX_MAX_ID_LEN"
        by (simp add: ARDUJAX_MAX_ID_LEN_def)
    qed
    then show ?thesis by (simp add: list_all_iff)
  qed
  show ?thesis
    using dist fit by (simp add: ctor selectedOption_def comp_def AjaneCheckButton_def)
qed

theorem C9_radio_ids_witness:
  "(12::nat) \<le> 255 \<and> length (cstring ''abcdefghijk'') \<le> 11
   \<and> map elem_id (buttons (the (AjaneRadioGroup 3 0 12 ''abcdefghijk'' 1)))
       = [''abcdefghijk0'', ''abcdefghijk1'', ''abcdefghijk2'', ''abcdefghijk3'',
          ''abcdefghijk4'', ''abcdefghijk5'', ''abcdefghijk6'', ''abcdefghijk7'',
          ''abcdefghijk8'', ''abcdefghijk9'', ''abcdefghijk10'', ''abcdefghijk11'']
   \<and> map isChecked (buttons (the (AjaneRadioGroup 3 0 3 ''r'' 1))) = [False, True, False]"
proof -
  have len: "length (cstring ''abcdefghijk'') \<le> 11"
    by (simp add: cstring_def NUL_def)
  have cs: "cstring ''abcdefghijk'' = ''abcdefghijk''"
    by (simp add: cstring_def NUL_def)
  from C9_radio_ids [of 12 "''abcdefghijk''" 3 0 1] len
  obtain g where g: "AjaneRadioGroup 3 0 12 ''abcdefghijk'' 1 = Some g"
    and ids: "map elem_id (buttons g) = map (\<lambda>i. cstring ''abcdefghijk'' @ itoa i) [0..<12]"
    by auto
  have ids': "map elem_id (buttons (the (AjaneRadioGroup 3 0 12 ''abcdefghijk'' 1)))
       = [''abcdefghijk0'', ''abcdefghijk1'', ''abcdefghijk2'', ''abcdefghijk3'',
          ''abcdefghijk4'', ''abcdefghijk5'', ''abcdefghijk6'', ''abcdefghijk7'',
          ''abcdefghijk8'', ''abcdefghijk9'', ''abcdefghijk10'', ''abcdefghijk11'']"
    unfolding g option.sel ids cs by code_simp
  have "map isChecked (buttons (the (AjaneRadioGroup 3 0 3 ''r'' 1))) = [False, True, False]"
    by code_simp
  with len ids' show ?thesis by simp
qed

text \<open>
  For \<open>NUM = 256\<close> the \<open>uint8_t\<close> counter never reaches \<open>NUM\<close>: the constructor does not
  return, and no group of that size comes to exist.
\<close>

theorem C9_radio_ids_counterexample:
  "AjaneRadioGroup 3 0 256 ''r'' 0 = None"
  by (simp add: AjaneRadioGroup_def for_uint8_diverges)


section \<open>Requests\<close>

lemma updateFromDriverArg_cong:
  "server_args d' = server_args d \<Longrightarrow>
     updateFromDriverArg checked_of d' a e = updateFromDriverArg checked_of d a e"
  by (simp add: getArg_def AjaneCheckButton_updateFromDriverArg_def split: widget.splits)

lemma Element_inbound_eq:
  assumes "same_request d0 d"
  shows "\<exists>d'. Element_inbound checked_of e d
           = (inbound_element checked_of d0 e, d', map Inbound (present_ids d0 [e])) \<and> same_request d0 d'"
  using assms updateFromDriverArg_cong [of d d0 checked_of "elem_id e" e]
  by (auto simp: Element_inbound_def inbound_element_def present_ids_def same_request_def
      Element_setChanged_def setChanged_def simp del: updateFromDriverArg.simps)

lemma inbound_eq:
  "same_request d0 d \<Longrightarrow>
     \<exists>n' d'. inbound checked_of n d = (n', d', map Inbound (present_ids d0 (elements n)))
        \<and> elements n' = map (inbound_element checked_of d0) (elements n) \<and> same_request d0 d'"
  "same_request d0 d \<Longrightarrow>
     \<exists>cs' d'. inbound_children checked_of cs d
          = (cs', d', map Inbound (present_ids d0 (elements_children cs)))
        \<and> elements_children cs' = map (inbound_element checked_of d0) (elements_children cs)
        \<and> same_request d0 d'"
proof (induction checked_of n d and checked_of cs d rule: inbound_inbound_children.induct)
  case (3 checked_of e d)
  from Element_inbound_eq [OF 3, of checked_of e] show ?case by auto
next
  case (4 checked_of children d)
  from "4.IH" [OF "4.prems"] show ?case by auto
next
  case (5 checked_of e children d)
  from Element_inbound_eq [OF "5.prems", of checked_of e]
  obtain d1 where e: "Element_inbound checked_of e d
      = (inbound_element checked_of d0 e, d1, map Inbound (present_ids d0 [e]))" and s1: "same_request d0 d1"
    by blast
  from "5.IH" [OF e [symmetric] refl s1]
  show ?case using e by (auto simp: present_ids_def)
next
  case (7 checked_of c cs d)
  from "7.IH"(1) [OF "7.prems"]
  obtain c' d1 where c: "inbound checked_of c d = (c', d1, map Inbound (present_ids d0 (elements c)))"
    and ec: "elements c' = map (inbound_element checked_of d0) (elements c)" and s1: "same_request d0 d1"
    by blast
  from "7.IH"(2) [OF c [symmetric] refl s1]
  show ?case using c ec by (auto simp: present_ids_def)
qed (simp_all add: present_ids_def)

lemma inbound_children_result:
  "\<exists>cs' d'. inbound_children checked_of cs d
        = (cs', d', map Inbound (present_ids d (elements_children cs)))
      \<and> elements_children cs' = map (inbound_element checked_of d) (elements_children cs)
      \<and> server_args d' = server_args d \<and> d_revision d' = d_revision d"
  using inbound_eq(2) [of d d checked_of cs] by (auto simp: same_request_def)

lemma count_Hook: "length (filter (\<lambda>e. e = Hook) (map Inbound ids @ [Hook, Commit, Diff since])) = 1"
  by (induction ids) simp_all

text \<open>
  C3. For every request, tree, comparison rule and hook, the steps of \<open>handleRequest\<close> are
  the inbound applications, one for each element of the tree for whose id the request
  holds a value and in walk order, then the hook, once, then the commit, then the diff
  against the baseline the client supplied. The hook receives the state after the inbound
  pass, the response carries the committed revision, and the records of the diff are the
  elements of the tree the hook returned that have changed since the client's baseline.
  Without a hook the records are the elements changed since that baseline after the
  inbound pass, in which every element that received a value has the pending revision:
  if that revision is newer than the baseline, the response holds a record of every
  element the request had a value for.
\<close>

theorem C3_update_ordering:
  "\<exists>children1 d1.
      inbound_children checked_of children d
        = (children1, d1, map Inbound (present_ids d (elements_children children)))
    \<and> elements_children children1 = map (inbound_element checked_of d) (elements_children children)
    \<and> handleRequest checked_of newer (Some hook) since (d, children)
        = ((nextRevision (fst (hook (d1, children1))), snd (hook (d1, children1))),
           \<lparr>resp_revision = next_revision (fst (hook (d1, children1))),
            resp_updates = fst (sendUpdates_children newer since True
                                  (snd (hook (d1, children1))))\<rparr>,
           map Inbound (present_ids d (elements_children children)) @ [Hook, Commit, Diff since])
    \<and> length (filter (\<lambda>e. e = Hook) (snd (snd (handleRequest checked_of newer (Some hook) since (d, children)))))
        = 1
    \<and> recorded (resp_updates (fst (snd (handleRequest checked_of newer (Some hook) since (d, children)))))
        = filter (changed newer since) (elements_children (snd (hook (d1, children1))))
    \<and> handleRequest checked_of newer None since (d, children)
        = ((nextRevision d1, children1),
           \<lparr>resp_revision = next_revision d1,
            resp_updates = fst (sendUpdates_children newer since True children1)\<rparr>,
           map Inbound (present_ids d (elements_children children)) @ [Commit, Diff since])
    \<and> recorded (resp_updates (fst (snd (handleRequest checked_of newer None since (d, children)))))
        = filter (changed newer since) (map (inbound_element checked_of d) (elements_children children))
    \<and> (newer (d_revision d + 1) since \<longrightarrow>
         (\<forall>e\<in>set (elements_children children).
            map_of (server_args d) (elem_id e) \<noteq> None \<longrightarrow>
              inbound_element checked_of d e
                \<in> set (recorded (resp_updates
                      (fst (snd (handleRequest checked_of newer None since (d, children))))))))"
proof -
  from inbound_children_result [of checked_of children d]
  obtain children1 d1 where inb: "inbound_children checked_of children d
        = (children1, d1, map Inbound (present_ids d (elements_children children)))"
    and els: "elements_children children1 = map (inbound_element checked_of d) (elements_children children)"
    by blast
  obtain d2 children2 where hk: "hook (d1, children1) = (d2, children2)"
    by (cases "hook (d1, children1)")
  have h: "handleRequest checked_of newer (Some hook) since (d, children)
        = ((nextRevision d2, children2),
           \<lparr>resp_revision = next_revision d2,
            resp_updates = fst (sendUpdates_children newer since True children2)\<rparr>,
           map Inbound (present_ids d (elements_children children)) @ [Hook, Commit, Diff since])"
    by (simp add: handleRequest_def inb hk driver_revision_def nextRevision_def)
  have n: "handleRequest checked_of newer None since (d, children)
        = ((nextRevision d1, children1),
           \<lparr>resp_revision = next_revision d1,
            resp_updates = fst (sendUpdates_children newer since True children1)\<rparr>,
           map Inbound (present_ids d (elements_children children)) @ [Commit, Diff since])"
    by (simp add: handleRequest_def inb driver_revision_def nextRevision_def)
  have c: "length (filter (\<lambda>e. e = Hook)
        (snd (snd (handleRequest checked_of newer (Some hook) since (d, children))))) = 1"
    by (simp only: h snd_conv count_Hook)
  have r: "recorded (resp_updates (fst (snd (handleRequest checked_of newer (Some hook) since (d, children)))))
        = filter (changed newer since) (elements_children children2)"
    by (simp add: h sendUpdates_joined recorded_joined)
  have r': "recorded (resp_updates (fst (snd (handleRequest checked_of newer None since (d, children)))))
        = filter (changed newer since) (map (inbound_element checked_of d) (elements_children children))"
    by (simp add: n sendUpdates_joined recorded_joined els)
  have own: "newer (d_revision d + 1) since \<longrightarrow>
         (\<forall>e\<in>set (elements_children children).
            map_of (server_args d) (elem_id e) \<noteq> None \<longrightarrow>
              inbound_element checked_of d e
                \<in> set (recorded (resp_updates
                      (fst (snd (handleRequest checked_of newer None since (d, children)))))))"
  proof (intro impI ballI)
    fix e
    assume nw: "newer (d_revision d + 1) since"
      and e: "e \<in> set (elements_children children)"
      and pr: "map_of (server_args d) (elem_id e) \<noteq> None"
    from pr have "revision (inbound_element checked_of d e) = d_revision d + 1"
      by (auto simp: inbound_element_def)
    with nw have "changed newer since (inbound_element checked_of d e)" by (simp add: changed_def)
    with e show "inbound_element checked_of d e
        \<in> set (recorded (resp_updates (fst (snd (handleRequest checked_of newer None since (d, children))))))"
      by (simp only: r') simp
  qed
  have main: "inbound_children checked_of children d
        = (children1, d1, map Inbound (present_ids d (elements_children children)))
    \<and> elements_children children1 = map (inbound_element checked_of d) (elements_children children)
    \<and> handleRequest checked_of newer (Some hook) since (d, children)
        = ((nextRevision (fst (hook (d1, children1))), snd (hook (d1, children1))),
           \<lparr>resp_revision = next_revision (fst (hook (d1, children1))),
            resp_updates = fst (sendUpdates_children newer since True
                                  (snd (hook (d1, children1))))\<rparr>,
           map Inbound (present_ids d (elements_children children)) @ [Hook, Commit, Diff since])
    \<and> length (filter (\<lambda>e. e = Hook) (snd (snd (handleRequest checked_of newer (Some hook) since (d, children)))))
        = 1
    \<and> recorded (resp_updates (fst (snd (handleRequest checked_of newer (Some hook) since (d, children)))))
        = filter (changed newer since) (elements_children (snd (hook (d1, children1))))
    \<and> handleRequest checked_of newer None since (d, children)
        = ((nextRevision d1, children1),
           \<lparr>resp_revision = next_revision d1,
            resp_updates = fst (sendUpdates_children newer since True children1)\<rparr>,
           map Inbound (present_ids d (elements_children children)) @ [Commit, Diff since])
    \<and> recorded (resp_updates (fst (snd (handleRequest checked_of newer None since (d, children)))))
        = filter (changed newer since) (map (inbound_element checked_of d) (elements_children children))"
    using inb els h n c r r' hk by simp
  from main own show ?thesis
    by (intro exI [of _ children1] exI [of _ d1]) blast
qed

theorem C3_update_ordering_witness:
  "handleRequest (\<lambda>v. v = ''true'') (\<lambda>r since. since < r) (Some (\<lambda>s. s)) 1
     (\<lparr>d_revision = 1, next_revision = 1,
       server_args = [(''b'', ''on''), (''c'', ''true''), (''zz'', ''1'')]\<rparr>,
      [Element \<lparr>elem_id = ''a'', flags = 3, revision = 0, widget = MutableSpan ''x''\<rparr>,
       Container [Element \<lparr>elem_id = ''b'', flags = 3, revision = 0, widget = TextInput 4 []\<rparr>],
       Element \<lparr>elem_id = ''c'', flags = 3, revision = 0, widget = CheckButton False\<rparr>])
   = ((\<lparr>d_revision = 2, next_revision = 2,
        server_args = [(''b'', ''on''), (''c'', ''true''), (''zz'', ''1'')]\<rparr>,
       [Element \<lparr>elem_id = ''a'', flags = 3, revision = 0, widget = MutableSpan ''x''\<rparr>,
        Container [Element \<lparr>elem_id = ''b'', flags = 3, revision = 2, widget = TextInput 4 ''on''\<rparr>],
        Element \<lparr>elem_id = ''c'', flags = 3, revision = 2, widget = CheckButton True\<rparr>]),
      \<lparr>resp_revision = 2,
       resp_updates =
         [Record \<lparr>elem_id = ''b'', flags = 3, revision = 2, widget = TextInput 4 ''on''\<rparr>, Comma,
          Record \<lparr>elem_id = ''c'', flags = 3, revision = 2, widget = CheckButton True\<rparr>]\<rparr>,
      [Inbound ''b'', Inbound ''c'', Hook, Commit, Diff 1])"
  using C3_update_ordering [of "\<lambda>v. v = ''true''"
      "[Element \<lparr>elem_id = ''a'', flags = 3, revision = 0, widget = MutableSpan ''x''\<rparr>,
        Container [Element \<lparr>elem_id = ''b'', flags = 3, revision = 0, widget = TextInput 4 []\<rparr>],
        Element \<lparr>elem_id = ''c'', flags = 3, revision = 0, widget = CheckButton False\<rparr>]"
      "\<lparr>d_revision = 1, next_revision = 1,
        server_args = [(''b'', ''on''), (''c'', ''true''), (''zz'', ''1'')]\<rparr>"
      "\<lambda>r since. since < r" "\<lambda>s. s" 1]
  by (simp add: handleRequest_def Element_inbound_def Element_setChanged_def setChanged_def
      getArg_def arg_def toCharArray_def nextRevision_def driver_revision_def
      Element_sendUpdates_def changed_def present_ids_def inbound_element_def
      AjaneCheckButton_updateFromDriverArg_def)

lemma TextInput_update:
  "widget e = TextInput SIZE v \<Longrightarrow>
     TextInput_value (updateFromDriverArg checked_of d argname e)
       = Some (if SIZE = 0 then v else take (SIZE - 1) (arg (server_args d) argname))"
  by (simp add: getArg_def toCharArray_def)

text \<open>
  C5, with the place of the cut left open by one character. A text input of \<open>SIZE > 0\<close>
  never rejects an inbound value: it stores a prefix of it of at most \<open>SIZE\<close> characters,
  which is the whole value when the value is shorter than \<open>SIZE\<close> and a proper prefix when
  it is longer. For the input \<open>name\<close> of size 8, the value \<open>Alice\<close> is stored unchanged and
  the value \<open>AliceAndBob\<close> is stored as a prefix of at most 8 characters. An Update with
  \<open>Alice\<close> for \<open>name\<close> against baseline 1, under a comparison rule for which 2 is newer
  than 1, answers with revision 2 and the one record of \<open>name\<close> with the value \<open>Alice\<close>.
\<close>

theorem C5_text_input_truncation:
  assumes "widget e = TextInput SIZE v" and "0 < SIZE" and "newer 2 1" and "\<not> newer r 1"
  shows "(\<exists>n. SIZE - 1 \<le> n \<and> n \<le> SIZE
            \<and> TextInput_value (updateFromDriverArg checked_of d argname e)
                = Some (take n (arg (server_args d) argname)))
     \<and> (length (arg (server_args d) argname) < SIZE \<longrightarrow>
          TextInput_value (updateFromDriverArg checked_of d argname e)
            = Some (arg (server_args d) argname))
     \<and> (SIZE < length (arg (server_args d) argname) \<longrightarrow>
          length (the (TextInput_value (updateFromDriverArg checked_of d argname e))) \<le> SIZE
          \<and> length (the (TextInput_value (updateFromDriverArg checked_of d argname e)))
              < length (arg (server_args d) argname))
     \<and> TextInput_value
         (updateFromDriverArg checked_of
            \<lparr>d_revision = 1, next_revision = 1, server_args = [(''name'', ''Alice'')]\<rparr> ''name''
            \<lparr>elem_id = ''name'', flags = f, revision = r0, widget = TextInput 8 v0\<rparr>)
         = Some ''Alice''
     \<and> (\<exists>n. 7 \<le> n \<and> n \<le> 8
            \<and> TextInput_value
                (updateFromDriverArg checked_of
                   \<lparr>d_revision = 2, next_revision = 2,
                     server_args = [(''name'', ''AliceAndBob'')]\<rparr> ''name''
                   \<lparr>elem_id = ''name'', flags = f, revision = 2, widget = TextInput 8 ''Alice''\<rparr>)
                = Some (take n ''AliceAndBob''))
     \<and> handleRequest checked_of newer None 1
         (\<lparr>d_revision = 1, next_revision = 1, server_args = [(''name'', ''Alice'')]\<rparr>,
          [Element \<lparr>elem_id = ''name'', flags = f, revision = r0, widget = TextInput 8 v0\<rparr>,
           Element \<lparr>elem_id = ''ok'', flags = f', revision = r, widget = CheckButton c\<rparr>])
         = ((\<lparr>d_revision = 2, next_revision = 2, server_args = [(''name'', ''Alice'')]\<rparr>,
             [Element \<lparr>elem_id = ''name'', flags = f, revision = 2, widget = TextInput 8 ''Alice''\<rparr>,
              Element \<lparr>elem_id = ''ok'', flags = f', revision = r, widget = CheckButton c\<rparr>]),
            \<lparr>resp_revision = 2,
             resp_updates =
               [Record \<lparr>elem_id = ''name'', flags = f, revision = 2, widget = TextInput 8 ''Alice''\<rparr>]\<rparr>,
            [Inbound ''name'', Commit, Diff 1])"
proof -
  let ?raw = "arg (server_args d) argname"
  let ?stored = "TextInput_value (updateFromDriverArg checked_of d argname e)"
  have gen: "?stored = Some (take (SIZE - 1) ?raw)"
    using TextInput_update [OF assms(1), of checked_of d argname] assms(2) by simp
  have cut: "\<exists>n. SIZE - 1 \<le> n \<and> n \<le> SIZE \<and> ?stored = Some (take n ?raw)"
    using gen by (intro exI [of _ "SIZE - 1"]) simp
  have whole: "length ?raw < SIZE \<longrightarrow> ?stored = Some ?raw"
    using gen by simp
  have proper: "SIZE < length ?raw \<longrightarrow>
      length (the ?stored) \<le> SIZE \<and> length (the ?stored) < length ?raw"
    using assms(2) by (simp only: gen option.sel) auto
  have alice: "TextInput_value
         (updateFromDriverArg checked_of
            \<lparr>d_revision = 1, next_revision = 1, server_args = [(''name'', ''Alice'')]\<rparr> ''name''
            \<lparr>elem_id = ''name'', flags = f, revision = r0, widget = TextInput 8 v0\<rparr>)
         = Some ''Alice''"
    by (simp add: getArg_def toCharArray_def arg_def)
  have "TextInput_value
         (updateFromDriverArg checked_of
            \<lparr>d_revision = 2, next_revision = 2, server_args = [(''name'', ''AliceAndBob'')]\<rparr> ''name''
            \<lparr>elem_id = ''name'', flags = f, revision = 2, widget = TextInput 8 ''Alice''\<rparr>)
         = Some (take 7 ''AliceAndBob'')"
    by (simp add: getArg_def toCharArray_def arg_def)
  then have bob: "\<exists>n. 7 \<le> n \<and> n \<le> 8
            \<and> TextInput_value
                (updateFromDriverArg checked_of
                   \<lparr>d_revision = 2, next_revision = 2,
                     server_args = [(''name'', ''AliceAndBob'')]\<rparr> ''name''
                   \<lparr>elem_id = ''name'', flags = f, revision = 2, widget = TextInput 8 ''Alice''\<rparr>)
                = Some (take n ''AliceAndBob'')"
    by (intro exI [of _ "7::nat"]) (simp del: updateFromDriverArg.simps TextInput_value.simps)
  have diff: "handleRequest checked_of newer None 1
         (\<lparr>d_revision = 1, next_revision = 1, server_args = [(''name'', ''Alice'')]\<rparr>,
          [Element \<lparr>elem_id = ''name'', flags = f, revision = r0, widget = TextInput 8 v0\<rparr>,
           Element \<lparr>elem_id = ''ok'', flags = f', revision = r, widget = CheckButton c\<rparr>])
         = ((\<lparr>d_revision = 2, next_revision = 2, server_args = [(''name'', ''Alice'')]\<rparr>,
             [Element \<lparr>elem_id = ''name'', flags = f, revision = 2, widget = TextInput 8 ''Alice''\<rparr>,
              Element \<lparr>elem_id = ''ok'', flags = f', revision = r, widget = CheckButton c\<rparr>]),
            \<lparr>resp_revision = 2,
             resp_updates =
               [Record \<lparr>elem_id = ''name'', flags = f, revision = 2, widget = TextInput 8 ''Alice''\<rparr>]\<rparr>,
            [Inbound ''name'', Commit, Diff 1])"
    using assms(3,4)
    by (simp add: handleRequest_def Element_inbound_def Element_setChanged_def setChanged_def
        getArg_def arg_def toCharArray_def nextRevision_def driver_revision_def
        Element_sendUpdates_def changed_def)
  from cut whole proper alice bob diff show ?thesis by blast
qed

theorem C5_text_input_truncation_witness:
  "widget \<lparr>elem_id = ''name'', flags = 3, revision = 2, widget = TextInput 8 ''Alice''\<rparr>
     = TextInput 8 ''Alice''
   \<and> (0::nat) < 8 \<and> (1::uint16_t) < 2 \<and> \<not> (0::uint16_t) > 1
   \<and> length (arg [(''name'', ''Bob'')] ''name'') < 8
   \<and> TextInput_value
        (updateFromDriverArg (\<lambda>v. v = ''true'')
           \<lparr>d_revision = 2, next_revision = 2, server_args = [(''name'', ''Bob'')]\<rparr> ''name''
           \<lparr>elem_id = ''name'', flags = 3, revision = 2, widget = TextInput 8 ''Alice''\<rparr>)
      = Some ''Bob''"
  using C5_text_input_truncation [of
      "\<lparr>elem_id = ''name'', flags = 3, revision = 2, widget = TextInput 8 ''Alice''\<rparr>"
      8 "''Alice''" "\<lambda>r since. since < r" 0 "\<lambda>v. v = ''true''"
      "\<lparr>d_revision = 2, next_revision = 2, server_args = [(''name'', ''Bob'')]\<rparr>"
      "''name''" 3 0 "[]" 3 False]
  by (simp add: arg_def del: updateFromDriverArg.simps TextInput_value.simps)

text \<open>The nine characters \<open>AliceAndB\<close> are not what an input of size 8 stores.\<close>

theorem C5_text_input_truncation_counterexample:
  "TextInput_value
     (updateFromDriverArg (\<lambda>v. v = ''true'')
        \<lparr>d_revision = 2, next_revision = 2, server_args = [(''name'', ''AliceAndBob'')]\<rparr> ''name''
        \<lparr>elem_id = ''name'', flags = 3, revision = 2, widget = TextInput 8 ''Alice''\<rparr>)
   \<noteq> Some ''AliceAndB''"
  by (simp add: getArg_def toCharArray_def arg_def)

end
